theory Spec2Isabelle
  imports Complex_Main "HOL-Library.Code_Target_Numeral"
begin

section \<open>Errors and effects\<close>

text \<open>
  The errors module declares three tagged errors. \<open>InvalidUrlError\<close> carries the rejected
  string, the other two carry the underlying cause (\<open>error: unknown\<close>). A cause is whatever
  JavaScript threw: an \<open>Error\<close> with a message, one of the tagged errors (they extend
  \<open>Error\<close>), or a value that is no \<open>Error\<close>, kept as its \<open>String(...)\<close> rendering.
\<close>

datatype thrown = JsError string | Tagged tagged_error | NonError string
  and tagged_error =
      InvalidUrlError string
    | YoutubeDownloadError thrown
    | TranscriptionError thrown

fun error_tag :: "tagged_error \<Rightarrow> string" where
  "error_tag (InvalidUrlError u) = ''InvalidUrlError''"
| "error_tag (YoutubeDownloadError e) = ''YoutubeDownloadError''"
| "error_tag (TranscriptionError e) = ''TranscriptionError''"

text \<open>
  A promise that has settled is either resolved with a value or rejected with a cause.
  An effect that has run is \<open>Inl\<close> of its failure or \<open>Inr\<close> of its value.
  \<open>Effect.tryPromise({try, catch})\<close> maps a rejection through \<open>catch\<close>;
  \<open>Effect.catchAll\<close> replaces a failure by the handler's effect; \<open>Effect.map\<close> acts on
  the value.
\<close>

datatype 'a settled = Resolved 'a | Rejected thrown

definition tryPromise :: "'a settled \<Rightarrow> (thrown \<Rightarrow> 'e) \<Rightarrow> 'e + 'a" where
  "tryPromise p catch = (case p of Resolved v \<Rightarrow> Inr v | Rejected x \<Rightarrow> Inl (catch x))"

definition catchAll :: "'e + 'a \<Rightarrow> ('e \<Rightarrow> 'f + 'a) \<Rightarrow> 'f + 'a" where
  "catchAll eff h = (case eff of Inl e \<Rightarrow> h e | Inr v \<Rightarrow> Inr v)"

definition effect_map :: "('a \<Rightarrow> 'b) \<Rightarrow> 'e + 'a \<Rightarrow> 'e + 'b" where
  "effect_map f eff = (case eff of Inl e \<Rightarrow> Inl e | Inr v \<Rightarrow> Inr (f v))"

section \<open>Decimal rendering of numbers in template literals\<close>

definition digit_char :: "nat \<Rightarrow> char" where
  "digit_char d = ''0123456789'' ! d"

fun show_nat :: "nat \<Rightarrow> string" where
  "show_nat n = (if n < 10 then [digit_char n] else show_nat (n div 10) @ [digit_char (n mod 10)])"

declare show_nat.simps [simp del]

definition show_int :: "int \<Rightarrow> string" where
  "show_int i = (if i < 0 then CHR ''-'' # show_nat (nat (- i)) else show_nat (nat i))"

section \<open>FileSystemService\<close>

subsection \<open>\<open>Path.join\<close> (POSIX)\<close>

text \<open>
  \<open>Path.join\<close> is Node's: the non-empty arguments are joined with \<open>/\<close> and the result is
  normalised. Normalisation walks the \<open>/\<close>-separated segments, drops empty and \<open>.\<close>
  segments, lets \<open>..\<close> remove the segment before it (or keeps it when there is none and the
  path is relative), and restores the leading and the trailing separator.
\<close>

fun split_path :: "string \<Rightarrow> string list" where
  "split_path [] = [[]]"
| "split_path (c # cs) =
     (if c = CHR ''/'' then [] # split_path cs
      else (case split_path cs of [] \<Rightarrow> [[c]] | s # ss \<Rightarrow> (c # s) # ss))"

fun join_segments :: "string list \<Rightarrow> string" where
  "join_segments [] = []"
| "join_segments [s] = s"
| "join_segments (s # t # ss) = s @ CHR ''/'' # join_segments (t # ss)"

definition normalize_step :: "bool \<Rightarrow> string list \<Rightarrow> string \<Rightarrow> string list" where
  "normalize_step allowAboveRoot res seg =
     (if seg = [] \<or> seg = ''.'' then res
      else if seg = ''..'' then
        (if res \<noteq> [] \<and> last res \<noteq> ''..'' then butlast res
         else if allowAboveRoot then res @ [''..''] else res)
      else res @ [seg])"

definition normalizeString :: "string \<Rightarrow> bool \<Rightarrow> string" where
  "normalizeString path allowAboveRoot =
     join_segments (foldl (normalize_step allowAboveRoot) [] (split_path path))"

definition path_normalize :: "string \<Rightarrow> string" where
  "path_normalize path =
     (if path = [] then ''.''
      else let isAbsolute = (hd path = CHR ''/'');
               trailingSeparator = (last path = CHR ''/'');
               p = normalizeString path (\<not> isAbsolute)
           in if p = [] then (if isAbsolute then ''/'' else if trailingSeparator then ''./'' else ''.'')
              else (if isAbsolute then ''/'' else []) @ p @ (if trailingSeparator then ''/'' else []))"

definition path_join :: "string \<Rightarrow> string \<Rightarrow> string" where
  "path_join a b =
     (let parts = filter (\<lambda>s. s \<noteq> []) [a, b]
      in if parts = [] then ''.'' else path_normalize (join_segments parts))"

subsection \<open>\<open>makeTempFile\<close>\<close>

text \<open>
  What \<open>makeTempFile\<close> reads from the system: the outcome of
  \<open>FS.realpath(OS.tmpdir())\<close> and the clock. \<open>Date.now()\<close> is the time in whole
  milliseconds; the clock itself is kept in microseconds, so that two calls at different
  instants can still read the same \<open>Date.now()\<close>.
\<close>

record sysenv =
  realpath_tmpdir :: "thrown + string"
  time_us :: nat

definition Date_now :: "sysenv \<Rightarrow> nat" where
  "Date_now w = time_us w div 1000"

definition temp_name :: "nat \<Rightarrow> string \<Rightarrow> string" where
  "temp_name now extension = ''fluent-ai-subtitles-'' @ show_nat now @ ''.'' @ extension"

definition makeTempFile :: "sysenv \<Rightarrow> string \<Rightarrow> tagged_error + string" where
  "makeTempFile w extension =
     tryPromise
       (case realpath_tmpdir w of
          Inl err \<Rightarrow> Rejected err
        | Inr dir \<Rightarrow> Resolved (path_join dir (temp_name (Date_now w) extension)))
       (\<lambda>error. YoutubeDownloadError error)"

subsection \<open>\<open>cleanupFile\<close>\<close>

text \<open>
  The file system maps a path to what is there: nothing, a file that \<open>unlink\<close> can
  remove, or an entry whose removal fails with an error code (\<open>EPERM\<close>, \<open>EISDIR\<close>,
  \<open>EBUSY\<close>, ...). \<open>FS.unlink\<close> rejects with \<open>ENOENT\<close> when there is nothing.
\<close>

datatype fs_entry = Removable | Stuck string

type_synonym filesystem = "string \<Rightarrow> fs_entry option"

definition unlink :: "filesystem \<Rightarrow> string \<Rightarrow> unit settled \<times> filesystem" where
  "unlink fs path =
     (case fs path of
        None \<Rightarrow> (Rejected (JsError (''ENOENT: no such file or directory, unlink '' @ path)), fs)
      | Some Removable \<Rightarrow> (Resolved (), fs(path := None))
      | Some (Stuck code) \<Rightarrow> (Rejected (JsError (code @ '': unlink '' @ path)), fs))"

text \<open>
  \<open>cleanupFile\<close> turns a rejection into the failure \<open>undefined\<close> and then catches every
  failure. Its error type is the one of the handler's effect, which never fails: it is
  left polymorphic here.
\<close>

definition cleanupFile :: "filesystem \<Rightarrow> string \<Rightarrow> ('e + unit) \<times> filesystem" where
  "cleanupFile fs path =
     (let (p, fs') = unlink fs path
      in (catchAll (tryPromise p (\<lambda>_. ())) (\<lambda>_. Inr ()), fs'))"

section \<open>YouTubeDownloader\<close>

text \<open>
  \<open>ytDlpWrap.exec\<close> either throws or returns an object. \<open>getAudio\<close> looks at its shape:
  an event emitter (it has \<open>on\<close>), a thenable, or neither. What happens afterwards is the
  sequence of events in the order they occur: the emitter's \<open>error\<close> and \<open>close\<close>
  (with the exit code, \<open>null\<close> being \<open>None\<close>), the thenable's fulfilment or rejection,
  and the abort signal. The promise settles at the first event that one of the registered
  listeners observes; it stays pending (\<open>None\<close>) when there is none.
\<close>

datatype proc_event =
    ProcError thrown
  | ProcClose "int option"
  | ProcFulfilled
  | ProcRejected thrown
  | AbortEvent

datatype proc_shape = Emitter | Thenable | Opaque

datatype process = Spawned proc_shape "proc_event list" | ExecThrows thrown

definition show_code :: "int option \<Rightarrow> string" where
  "show_code code = (case code of None \<Rightarrow> ''null'' | Some c \<Rightarrow> show_int c)"

fun observe :: "proc_shape \<Rightarrow> proc_event \<Rightarrow> unit settled option" where
  "observe Emitter (ProcError e) = Some (Rejected e)"
| "observe Emitter (ProcClose code) =
     (if code = Some 0 then Some (Resolved ())
      else Some (Rejected (Tagged (YoutubeDownloadError
             (JsError (''yt-dlp exited with code '' @ show_code code))))))"
| "observe Thenable ProcFulfilled = Some (Resolved ())"
| "observe Thenable (ProcRejected e) = Some (Rejected e)"
| "observe shape AbortEvent = Some (Rejected (Tagged (YoutubeDownloadError (JsError ''aborted''))))"
| "observe shape ev = None"

fun first_settlement :: "proc_shape \<Rightarrow> proc_event list \<Rightarrow> unit settled option" where
  "first_settlement shape [] = None"
| "first_settlement shape (ev # evs) =
     (case observe shape ev of Some r \<Rightarrow> Some r | None \<Rightarrow> first_settlement shape evs)"

definition extraction_promise :: "process \<Rightarrow> unit settled option" where
  "extraction_promise proc =
     (case proc of
        ExecThrows e \<Rightarrow> Some (Rejected e)
      | Spawned Opaque evs \<Rightarrow> Some (Resolved ())
      | Spawned shape evs \<Rightarrow> first_settlement shape evs)"

text \<open>
  \<open>getAudio\<close> reserves the temp path, runs the extraction with the six arguments and
  maps the promise's value to the path. The release registered by
  \<open>Effect.acquireRelease\<close> belongs to the enclosing scope and is no part of the result.
\<close>

definition getAudio ::
  "sysenv \<Rightarrow> (string list \<Rightarrow> process) \<Rightarrow> string \<Rightarrow> (tagged_error + string) option" where
  "getAudio w exec url =
     (case makeTempFile w ''wav'' of
        Inl e \<Rightarrow> Some (Inl e)
      | Inr file \<Rightarrow>
          (case extraction_promise (exec [url, ''-x'', ''--audio-format'', ''wav'', ''-o'', file]) of
             None \<Rightarrow> None
           | Some p \<Rightarrow>
               Some (effect_map (\<lambda>_. file) (tryPromise p (\<lambda>error. YoutubeDownloadError error)))))"

section \<open>Subtitle tokens\<close>

text \<open>
  A JavaScript number is a finite value, an infinity or \<open>NaN\<close>. Finite values are kept
  as exact reals: rounding to double precision and the sign of zero play no role in what
  follows. The times of a token are computed from finite numbers; its score may be any
  number, since it comes out of \<open>Number(...)\<close>.
\<close>

datatype jsnum = NaN | PosInf | NegInf | Fin real

record SubtitleToken =
  id_tok :: nat
  value_tok :: string
  startTimeMs :: real
  endTimeMs :: real
  score :: jsnum

section \<open>Transcription by upload, submit and poll (AssemblyAI)\<close>

record word =
  w_text :: string
  w_start :: real
  w_end :: real
  w_confidence :: real

record status_data =
  status :: string
  text_sd :: "string option"
  words :: "word list option"
  error :: "string option"

text \<open>
  The backend as the code sees it: reading the file, the upload (answering with
  \<open>upload_url\<close>), the submission (answering with \<open>id\<close>), the \<open>k\<close>-th status request for an
  id, and whether the signal is aborted at the top of the \<open>k\<close>-th iteration. \<open>Inl\<close> is an
  exception thrown by the call or by parsing its answer; a missing field is \<open>None\<close>.
\<close>

record assembly_backend =
  readFile :: "string \<Rightarrow> thrown + string"
  upload :: "string \<Rightarrow> thrown + string option"
  submit :: "string option \<Rightarrow> thrown + string option"
  poll_status :: "string option \<Rightarrow> nat \<Rightarrow> thrown + status_data"
  aborted :: "nat \<Rightarrow> bool"

definition MAX_POLL_TIME :: nat where
  "MAX_POLL_TIME = 20 * 60 * 1000"

definition POLL_INTERVAL :: nat where
  "POLL_INTERVAL = 3000"

definition words_to_subtitles :: "word list \<Rightarrow> SubtitleToken list" where
  "words_to_subtitles ws =
     map (\<lambda>(i, w). \<lparr>id_tok = i, value_tok = w_text w, startTimeMs = w_start w,
                     endTimeMs = w_end w, score = Fin (w_confidence w)\<rparr>)
         (enumerate 0 ws)"

text \<open>
  The poll loop, from iteration \<open>k\<close> with \<open>elapsed\<close> milliseconds slept so far. Besides
  the outcome it returns the number of status requests made and the time slept, which is
  what the loop has done when it ends.
\<close>

function poll_loop ::
  "(nat \<Rightarrow> thrown + status_data) \<Rightarrow> (nat \<Rightarrow> bool) \<Rightarrow> nat \<Rightarrow> nat
     \<Rightarrow> (thrown + SubtitleToken list) \<times> nat \<times> nat" where
  "poll_loop fetch_status is_aborted k elapsed =
     (if is_aborted k then (Inl (JsError ''Transcription aborted''), k, elapsed)
      else if elapsed > MAX_POLL_TIME then (Inl (JsError ''Transcription timed out''), k, elapsed)
      else
        (case fetch_status k of
           Inl e \<Rightarrow> (Inl e, Suc k, elapsed)
         | Inr statusData \<Rightarrow>
             if status statusData = ''completed'' then
               (Inr (words_to_subtitles (case words statusData of None \<Rightarrow> [] | Some ws \<Rightarrow> ws)),
                Suc k, elapsed)
             else if status statusData = ''error'' then
               (Inl (JsError (''AssemblyAI transcription failed: '' @
                       (case error statusData of None \<Rightarrow> ''undefined'' | Some m \<Rightarrow> m))),
                Suc k, elapsed)
             else poll_loop fetch_status is_aborted (Suc k) (elapsed + POLL_INTERVAL)))"
  by pat_completeness auto
termination
  by (relation "measure (\<lambda>(f, a, k, elapsed). Suc MAX_POLL_TIME - elapsed)")
     (auto simp add: MAX_POLL_TIME_def POLL_INTERVAL_def)

declare poll_loop.simps [simp del]

definition to_Error :: "thrown \<Rightarrow> thrown" where
  "to_Error e = (case e of NonError s \<Rightarrow> JsError s | _ \<Rightarrow> e)"

definition assembly_body :: "assembly_backend \<Rightarrow> string \<Rightarrow> SubtitleToken list settled" where
  "assembly_body b filePath =
     (case readFile b filePath of
        Inl e \<Rightarrow> Rejected e
      | Inr audioBuffer \<Rightarrow>
          (case upload b audioBuffer of
             Inl e \<Rightarrow> Rejected e
           | Inr upload_url \<Rightarrow>
               (case submit b upload_url of
                  Inl e \<Rightarrow> Rejected e
                | Inr transcriptId \<Rightarrow>
                    (case fst (poll_loop (poll_status b transcriptId) (aborted b) 0 0) of
                       Inl e \<Rightarrow> Rejected e
                     | Inr subtitles \<Rightarrow> Resolved subtitles))))"

definition transcribe_assembly ::
  "assembly_backend \<Rightarrow> string \<Rightarrow> tagged_error + SubtitleToken list" where
  "transcribe_assembly b filePath =
     tryPromise (assembly_body b filePath) (\<lambda>error. TranscriptionError (to_Error error))"

section \<open>JavaScript values, truthiness and \<open>Number\<close>\<close>

subsection \<open>Rounding to double precision\<close>

text \<open>
  The Number value for a real: the nearest double, ties to the even significand, the
  infinity from \<open>2^1024 - 2^970\<close> on. \<open>binexp a\<close> is the binary exponent of \<open>a\<close>, not
  below -1022 (the exponent of the subnormal numbers); the spacing of the doubles around
  \<open>a\<close> is \<open>2^(binexp a - 52)\<close>. The sign of a zero result is not kept.
\<close>

primrec binexp_up :: "nat \<Rightarrow> real \<Rightarrow> int" where
  "binexp_up 0 a = 0"
| "binexp_up (Suc n) a = (if a < 2 then 0 else 1 + binexp_up n (a / 2))"

primrec binexp_down :: "nat \<Rightarrow> real \<Rightarrow> int" where
  "binexp_down 0 a = 0"
| "binexp_down (Suc n) a = (if 1 \<le> a then 0 else binexp_down n (2 * a) - 1)"

definition binexp :: "real \<Rightarrow> int" where
  "binexp a = (if 1 \<le> a then binexp_up 1023 a else binexp_down 1022 a)"

definition pow2 :: "int \<Rightarrow> real" where
  "pow2 e = (if 0 \<le> e then 2 ^ nat e else 1 / 2 ^ nat (- e))"

definition round_half_even :: "real \<Rightarrow> int" where
  "round_half_even q =
     (let f = \<lfloor>q\<rfloor>
      in if q - of_int f < 1 / 2 then f
         else if 1 / 2 < q - of_int f then f + 1
         else if even f then f else f + 1)"

definition to_double :: "real \<Rightarrow> jsnum" where
  "to_double x =
     (if x = 0 then Fin 0
      else
        let a = \<bar>x\<bar>;
            ulp = pow2 (binexp a - 52);
            m = of_int (round_half_even (a / ulp)) * ulp
        in if 2 ^ 1024 \<le> a \<or> 2 ^ 1024 \<le> m then (if x < 0 then NegInf else PosInf)
           else Fin (if x < 0 then - m else m))"

subsection \<open>\<open>StringToNumber\<close>\<close>

text \<open>
  White space is trimmed; the empty string is 0; then an unsigned \<open>0x\<close>, \<open>0o\<close> or \<open>0b\<close>
  integer, or an optionally signed decimal literal (digits, an optional fraction, an
  optional exponent) or \<open>Infinity\<close>; anything else is \<open>NaN\<close>. The mathematical value of the
  literal is rounded to a double. Strings are lists of 8-bit characters, read as the code
  units below 256.
\<close>

definition is_white :: "char \<Rightarrow> bool" where
  "is_white c \<longleftrightarrow> c \<in> {CHR 0x09, CHR 0x0A, CHR 0x0B, CHR 0x0C, CHR 0x0D, CHR 0x20, CHR 0xA0}"

definition trim :: "string \<Rightarrow> string" where
  "trim s = rev (dropWhile is_white (rev (dropWhile is_white s)))"

definition digit_of :: "string \<Rightarrow> char \<Rightarrow> nat option" where
  "digit_of alphabet c =
     (if c \<in> set alphabet then Some (length (takeWhile (\<lambda>d. d \<noteq> c) alphabet)) else None)"

definition hex_digit :: "char \<Rightarrow> nat option" where
  "hex_digit c =
     (case digit_of ''0123456789abcdef'' c of
        Some v \<Rightarrow> Some v
      | None \<Rightarrow> map_option (\<lambda>v. v + 10) (digit_of ''ABCDEF'' c))"

definition radix_digit :: "nat \<Rightarrow> char \<Rightarrow> nat option" where
  "radix_digit radix c =
     (case hex_digit c of Some v \<Rightarrow> if v < radix then Some v else None | None \<Rightarrow> None)"

fun digits_value :: "nat \<Rightarrow> nat \<Rightarrow> string \<Rightarrow> nat option" where
  "digits_value radix acc [] = Some acc"
| "digits_value radix acc (c # cs) =
     (case radix_digit radix c of
        None \<Rightarrow> None
      | Some v \<Rightarrow> digits_value radix (radix * acc + v) cs)"

definition is_digit :: "char \<Rightarrow> bool" where
  "is_digit c \<longleftrightarrow> c \<in> set ''0123456789''"

definition radix_literal :: "nat \<Rightarrow> string \<Rightarrow> nat option" where
  "radix_literal radix ds = (if ds = [] then None else digits_value radix 0 ds)"

definition non_decimal :: "string \<Rightarrow> nat option" where
  "non_decimal s =
     (case s of
        z # p # ds \<Rightarrow>
          if z \<noteq> CHR ''0'' then None
          else if p = CHR ''x'' \<or> p = CHR ''X'' then radix_literal 16 ds
          else if p = CHR ''o'' \<or> p = CHR ''O'' then radix_literal 8 ds
          else if p = CHR ''b'' \<or> p = CHR ''B'' then radix_literal 2 ds
          else None
      | _ \<Rightarrow> None)"

definition exponent_part :: "string \<Rightarrow> int option" where
  "exponent_part s =
     (case s of
        [] \<Rightarrow> Some 0
      | e # r \<Rightarrow>
          if e = CHR ''e'' \<or> e = CHR ''E'' then
            (case r of
               [] \<Rightarrow> None
             | sg # ds \<Rightarrow>
                 if sg = CHR ''+'' then map_option int (radix_literal 10 ds)
                 else if sg = CHR ''-'' then map_option (\<lambda>n. - int n) (radix_literal 10 ds)
                 else map_option int (radix_literal 10 r))
          else None)"

definition scale10 :: "real \<Rightarrow> int \<Rightarrow> real" where
  "scale10 m e = (if 0 \<le> e then m * 10 ^ nat e else m / 10 ^ nat (- e))"

definition unsigned_decimal :: "string \<Rightarrow> jsnum" where
  "unsigned_decimal s =
     (if s = ''Infinity'' then PosInf
      else
        let ip = takeWhile is_digit s;
            r1 = dropWhile is_digit s;
            dotted = (r1 \<noteq> [] \<and> hd r1 = CHR ''.'');
            fp = (if dotted then takeWhile is_digit (tl r1) else []);
            r2 = (if dotted then dropWhile is_digit (tl r1) else r1)
        in if ip = [] \<and> fp = [] then NaN
           else
             (case (digits_value 10 0 ip, digits_value 10 0 fp, exponent_part r2) of
                (Some i, Some f, Some e) \<Rightarrow>
                  to_double (scale10 (real i + real f / 10 ^ length fp) e)
              | _ \<Rightarrow> NaN))"

fun js_negate :: "jsnum \<Rightarrow> jsnum" where
  "js_negate NaN = NaN"
| "js_negate PosInf = NegInf"
| "js_negate NegInf = PosInf"
| "js_negate (Fin x) = Fin (- x)"

definition StringToNumber :: "string \<Rightarrow> jsnum" where
  "StringToNumber s =
     (let t = trim s
      in if t = [] then Fin 0
         else
           (case non_decimal t of
              Some n \<Rightarrow> to_double (real n)
            | None \<Rightarrow>
                if hd t = CHR ''+'' then unsigned_decimal (tl t)
                else if hd t = CHR ''-'' then js_negate (unsigned_decimal (tl t))
                else unsigned_decimal t))"

subsection \<open>Values, \<open>ToBoolean\<close> and \<open>Number(...)\<close>\<close>

text \<open>
  What a field typed \<open>any\<close> can hold: a primitive value or an object (arrays and functions
  included). Of an object the handler only uses that it is truthy, and \<open>Number\<close> of it:
  the conversion of the primitive that its \<open>ToPrimitive\<close> gives (\<open>None\<close> when that throws).
  For the empty array \<open>[]\<close> this primitive is the empty string.
\<close>

datatype jsprim =
    PUndefined
  | PNull
  | PBool bool
  | PNum jsnum
  | PStr string
  | PBigInt int
  | PSymbol

datatype jsval = Prim jsprim | Object "jsprim option"

abbreviation JUndefined :: jsval where "JUndefined \<equiv> Prim PUndefined"
abbreviation JNull :: jsval where "JNull \<equiv> Prim PNull"
abbreviation JBool :: "bool \<Rightarrow> jsval" where "JBool b \<equiv> Prim (PBool b)"
abbreviation JNum :: "jsnum \<Rightarrow> jsval" where "JNum n \<equiv> Prim (PNum n)"
abbreviation JStr :: "string \<Rightarrow> jsval" where "JStr s \<equiv> Prim (PStr s)"

text \<open>\<open>truthy\<close> is \<open>ToBoolean\<close>, \<open>js_or\<close> is the operator \<open>||\<close>.\<close>

fun truthy_prim :: "jsprim \<Rightarrow> bool" where
  "truthy_prim PUndefined = False"
| "truthy_prim PNull = False"
| "truthy_prim (PBool b) = b"
| "truthy_prim (PNum NaN) = False"
| "truthy_prim (PNum (Fin x)) = (x \<noteq> 0)"
| "truthy_prim (PNum PosInf) = True"
| "truthy_prim (PNum NegInf) = True"
| "truthy_prim (PStr s) = (s \<noteq> [])"
| "truthy_prim (PBigInt i) = (i \<noteq> 0)"
| "truthy_prim PSymbol = True"

fun truthy :: "jsval \<Rightarrow> bool" where
  "truthy (Prim p) = truthy_prim p"
| "truthy (Object conv) = True"

definition js_or :: "jsval \<Rightarrow> jsval \<Rightarrow> jsval" where
  "js_or a b = (if truthy a then a else b)"

text \<open>
  \<open>ToNumber v\<close> is the outcome of \<open>Number(v)\<close>: \<open>None\<close> when it throws a \<open>TypeError\<close> (a
  symbol) or whatever the object's conversion throws.
\<close>

fun prim_to_number :: "jsprim \<Rightarrow> jsnum option" where
  "prim_to_number PUndefined = Some NaN"
| "prim_to_number PNull = Some (Fin 0)"
| "prim_to_number (PBool b) = Some (Fin (if b then 1 else 0))"
| "prim_to_number (PNum n) = Some n"
| "prim_to_number (PStr s) = Some (StringToNumber s)"
| "prim_to_number (PBigInt i) = Some (to_double (real_of_int i))"
| "prim_to_number PSymbol = None"

fun ToNumber :: "jsval \<Rightarrow> jsnum option" where
  "ToNumber (Prim p) = prim_to_number p"
| "ToNumber (Object None) = None"
| "ToNumber (Object (Some p)) = prim_to_number p"

section \<open>Transcription by continuous recognition (speech SDK)\<close>

text \<open>
  What the handler reads of a recognition result: the reason (a member of the SDK's
  \<open>ResultReason\<close> enumeration, \<open>RecognizedSpeech\<close> being 3), the text, offset and duration
  in ticks of 100 ns, the value of
  \<open>properties?.getProperty("Speech.Phrase.Confidence")\<close> and the field \<open>confidence\<close>.
\<close>

definition RecognizedSpeech :: nat where
  "RecognizedSpeech = 3"

record recognition_result =
  reason :: nat
  text_res :: string
  offset :: real
  duration :: real
  confidence_property :: jsval
  confidence_field :: jsval

definition pick_confidence :: "recognition_result \<Rightarrow> jsval" where
  "pick_confidence r = js_or (js_or (confidence_property r) (confidence_field r)) (JNum (Fin 0.5))"

text \<open>
  The \<open>recognized\<close> handler: \<open>None\<close> is an event without a result. The token is built
  before it is pushed: when \<open>Number(confidence)\<close> throws, the exception leaves the
  handler and \<open>results\<close> stays as it is.
\<close>

definition recognized :: "SubtitleToken list \<Rightarrow> recognition_result option \<Rightarrow> SubtitleToken list" where
  "recognized results e =
     (case e of
        None \<Rightarrow> results
      | Some r \<Rightarrow>
          if reason r = RecognizedSpeech then
            (case ToNumber (pick_confidence r) of
               None \<Rightarrow> results
             | Some sc \<Rightarrow>
                 results @
                   [\<lparr>id_tok = length results, value_tok = text_res r,
                     startTimeMs = offset r / 10000,
                     endTimeMs = (offset r + duration r) / 10000,
                     score = sc\<rparr>])
          else results)"

datatype recognizer_event =
    RecognizedEv "recognition_result option"
  | SessionStopped
  | CanceledEv thrown
  | AbortSignal

text \<open>
  The promise is pending until the first \<open>sessionStopped\<close> (which resolves it with the
  array \<open>results\<close> itself), \<open>canceled\<close> or abort (which reject it); a later call of
  \<open>resolve\<close> or \<open>reject\<close> changes nothing.
\<close>

datatype promise_state = Pending | ResolvedWithResults | RejectedWith thrown

definition settle :: "promise_state \<Rightarrow> promise_state \<Rightarrow> promise_state" where
  "settle st new = (case st of Pending \<Rightarrow> new | _ \<Rightarrow> st)"

text \<open>
  The events are those delivered until the caller reads the result, in the order they
  arrive. Every \<open>recognized\<close> event grows the array, also after the promise is resolved:
  the caller holds the array, not a copy of it.
\<close>

fun collect ::
  "SubtitleToken list \<Rightarrow> promise_state \<Rightarrow> recognizer_event list
     \<Rightarrow> SubtitleToken list \<times> promise_state" where
  "collect results st [] = (results, st)"
| "collect results st (RecognizedEv e # evs) = collect (recognized results e) st evs"
| "collect results st (SessionStopped # evs) = collect results (settle st ResolvedWithResults) evs"
| "collect results st (CanceledEv e # evs) =
     collect results (settle st (RejectedWith (Tagged (TranscriptionError e)))) evs"
| "collect results st (AbortSignal # evs) =
     collect results
       (settle st (RejectedWith (Tagged (TranscriptionError (JsError ''aborted''))))) evs"

definition recognition_promise :: "recognizer_event list \<Rightarrow> SubtitleToken list settled option" where
  "recognition_promise evs =
     (case collect [] Pending evs of
        (results, Pending) \<Rightarrow> None
      | (results, ResolvedWithResults) \<Rightarrow> Some (Resolved results)
      | (results, RejectedWith err) \<Rightarrow> Some (Rejected err))"

text \<open>
  \<open>build_error\<close> is the exception, if any, thrown while the recognizer is built (reading the
  file included); the executor's \<open>catch\<close> rejects with it.
\<close>

definition transcribe_continuous ::
  "thrown option \<Rightarrow> recognizer_event list \<Rightarrow> (tagged_error + SubtitleToken list) option" where
  "transcribe_continuous build_error evs =
     map_option (\<lambda>p. tryPromise p (\<lambda>error. TranscriptionError error))
       (case build_error of Some err \<Rightarrow> Some (Rejected err) | None \<Rightarrow> recognition_promise evs)"

section \<open>Transcription by single-shot recognition (\<open>recognizeOnceAsync\<close>)\<close>

record once_result =
  once_reason :: nat
  once_text :: "string option"
  once_offset :: real
  once_duration :: real

datatype once_event =
    OnceResult once_result
  | OnceError string
  | Timeout30s
  | OnceAbort

text \<open>
  The success callback, the error callback, the 30 second timer and the abort listener:
  whichever comes first settles the promise. On success the promise is resolved with
  \<open>[subtitles]\<close>, where \<open>subtitles\<close> is the array holding the one token.
\<close>

definition once_settle :: "once_event \<Rightarrow> SubtitleToken list list settled" where
  "once_settle ev =
     (case ev of
        OnceResult result \<Rightarrow>
          if once_reason result = RecognizedSpeech then
            (let subtitles =
               [\<lparr>id_tok = 0,
                 value_tok = (case once_text result of None \<Rightarrow> [] | Some t \<Rightarrow> t),
                 startTimeMs = once_offset result / 10000,
                 endTimeMs = (once_offset result + once_duration result) / 10000,
                 score = Fin 0.8\<rparr>]
             in Resolved [subtitles])
          else Rejected (JsError (''Unexpected result reason: '' @ show_nat (once_reason result)))
      | OnceError e \<Rightarrow> Rejected (JsError (''Speech recognition error: '' @ e))
      | Timeout30s \<Rightarrow> Rejected (JsError ''Speech recognition timeout after 30 seconds'')
      | OnceAbort \<Rightarrow> Rejected (JsError ''Speech recognition aborted''))"

definition transcribe_once ::
  "thrown option \<Rightarrow> once_event list \<Rightarrow> (tagged_error + SubtitleToken list list) option" where
  "transcribe_once build_error evs =
     map_option (\<lambda>p. tryPromise p (\<lambda>error. TranscriptionError (to_Error error)))
       (case build_error of
          Some err \<Rightarrow> Some (Rejected err)
        | None \<Rightarrow> (case evs of [] \<Rightarrow> None | ev # rest \<Rightarrow> Some (once_settle ev)))"

section \<open>URL validation\<close>

subsection \<open>Regular expressions and \<open>RegExp.prototype.test\<close>\<close>

text \<open>
  The patterns of the program use literal characters, character classes, sequence,
  alternation, the quantifiers \<open>?\<close>, \<open>*\<close>, \<open>+\<close> and \<open>{n}\<close>, and are anchored at both ends
  (\<open>^\<close> and \<open>$\<close> without the multiline flag), so \<open>test\<close> asks whether the whole string
  belongs to the pattern's language. Groups capture nothing that is read, and a lazy
  quantifier accepts the same strings as a greedy one. Membership is decided by
  derivatives.
\<close>

datatype rx =
    Void
  | Eps
  | Class "char \<Rightarrow> bool"
  | Seq rx rx
  | Alt rx rx
  | Star rx

fun nullable :: "rx \<Rightarrow> bool" where
  "nullable Void = False"
| "nullable Eps = True"
| "nullable (Class p) = False"
| "nullable (Seq a b) = (nullable a \<and> nullable b)"
| "nullable (Alt a b) = (nullable a \<or> nullable b)"
| "nullable (Star a) = True"

fun deriv :: "char \<Rightarrow> rx \<Rightarrow> rx" where
  "deriv c Void = Void"
| "deriv c Eps = Void"
| "deriv c (Class p) = (if p c then Eps else Void)"
| "deriv c (Seq a b) =
     (if nullable a then Alt (Seq (deriv c a) b) (deriv c b) else Seq (deriv c a) b)"
| "deriv c (Alt a b) = Alt (deriv c a) (deriv c b)"
| "deriv c (Star a) = Seq (deriv c a) (Star a)"

fun regex_test :: "rx \<Rightarrow> string \<Rightarrow> bool" where
  "regex_test r [] = nullable r"
| "regex_test r (c # cs) = regex_test (deriv c r) cs"

definition Lit :: "char \<Rightarrow> rx" where
  "Lit c = Class (\<lambda>x. x = c)"

fun Str :: "string \<Rightarrow> rx" where
  "Str [] = Eps"
| "Str (c # cs) = Seq (Lit c) (Str cs)"

definition Opt :: "rx \<Rightarrow> rx" where
  "Opt r = Alt r Eps"

definition Plus :: "rx \<Rightarrow> rx" where
  "Plus r = Seq r (Star r)"

fun Rep :: "nat \<Rightarrow> rx \<Rightarrow> rx" where
  "Rep 0 r = Eps"
| "Rep (Suc n) r = Seq r (Rep n r)"

subsection \<open>Character classes\<close>

definition in_range :: "char \<Rightarrow> char \<Rightarrow> char \<Rightarrow> bool" where
  "in_range lo hi c \<longleftrightarrow> (of_char lo :: nat) \<le> of_char c \<and> (of_char c :: nat) \<le> of_char hi"

text \<open>\<open>[a-zA-Z0-9_-]\<close>\<close>

definition id_char :: "char \<Rightarrow> bool" where
  "id_char c \<longleftrightarrow>
     in_range CHR ''a'' CHR ''z'' c \<or> in_range CHR ''A'' CHR ''Z'' c \<or>
     in_range CHR ''0'' CHR ''9'' c \<or> c = CHR ''_'' \<or> c = CHR ''-''"

text \<open>
  \<open>.\<close> is any character but a line terminator, \<open>\s\<close> is white space or a line
  terminator, \<open>\S\<close> its complement (among the code units below 256).
\<close>

definition line_terminator :: "char \<Rightarrow> bool" where
  "line_terminator c \<longleftrightarrow> c = CHR 0x0A \<or> c = CHR 0x0D"

definition dot :: "char \<Rightarrow> bool" where
  "dot c \<longleftrightarrow> \<not> line_terminator c"

definition non_space :: "char \<Rightarrow> bool" where
  "non_space c \<longleftrightarrow> \<not> is_white c"

text \<open>\<open>[^\/\n\s]\<close>\<close>

definition path_char :: "char \<Rightarrow> bool" where
  "path_char c \<longleftrightarrow> \<not> (c = CHR ''/'' \<or> c = CHR 0x0A \<or> is_white c)"

subsection \<open>\<open>isValidYouTubeUrl\<close> and \<open>validateUrl\<close>\<close>

text \<open>
  The pattern of \<open>main.ts\<close> (the same in the single-shot variant, and in the schema of
  \<open>model.ts\<close>):
  \<^verbatim>\<open>/^https?:\/\/(www\.)?(youtube\.com\/watch\?v=|youtu\.be\/)[a-zA-Z0-9_-]{11}.*$/\<close>
\<close>

definition youtubeRegex :: rx where
  "youtubeRegex =
     Seq (Str ''http'') (Seq (Opt (Lit CHR ''s'')) (Seq (Str ''://'')
       (Seq (Opt (Str ''www.''))
         (Seq (Alt (Str ''youtube.com/watch?v='') (Str ''youtu.be/''))
           (Seq (Rep 11 (Class id_char)) (Star (Class dot)))))))"

definition isValidYouTubeUrl :: "string \<Rightarrow> bool" where
  "isValidYouTubeUrl url = regex_test youtubeRegex url"

definition validateUrl :: "string \<Rightarrow> tagged_error + string" where
  "validateUrl url = (if isValidYouTubeUrl url then Inr url else Inl (InvalidUrlError url))"

text \<open>
  The pattern of the AssemblyAI variant:
  \<^verbatim>\<open>/^(https?:\/\/)?(www\.)?(youtube\.com\/(?:[^\/\n\s]+\/\S+\/|(?:v|e(?:mbed)?)\/|\S*?[?&]v=)|youtu\.be\/)([a-zA-Z0-9_-]{11})$/\<close>
\<close>

definition youtubeRegex_assembly :: rx where
  "youtubeRegex_assembly =
     Seq (Opt (Seq (Str ''http'') (Seq (Opt (Lit CHR ''s'')) (Str ''://''))))
       (Seq (Opt (Str ''www.''))
         (Seq (Alt
                 (Seq (Str ''youtube.com/'')
                    (Alt (Seq (Plus (Class path_char))
                            (Seq (Lit CHR ''/'') (Seq (Plus (Class non_space)) (Lit CHR ''/''))))
                      (Alt (Seq (Alt (Lit CHR ''v'') (Seq (Lit CHR ''e'') (Opt (Str ''mbed''))))
                              (Lit CHR ''/''))
                           (Seq (Star (Class non_space))
                              (Seq (Class (\<lambda>c. c = CHR ''?'' \<or> c = CHR ''&'')) (Str ''v=''))))))
                 (Str ''youtu.be/''))
            (Rep 11 (Class id_char))))"

definition isValidYouTubeUrl_assembly :: "string \<Rightarrow> bool" where
  "isValidYouTubeUrl_assembly url = regex_test youtubeRegex_assembly url"

definition validateUrl_assembly :: "string \<Rightarrow> tagged_error + string" where
  "validateUrl_assembly url =
     (if isValidYouTubeUrl_assembly url then Inr url else Inl (InvalidUrlError url))"

text \<open>
  The grammar in the words of the specification: a scheme \<open>http\<close> or \<open>https\<close>, \<open>://\<close>, an
  optional \<open>www.\<close>, one of the two host prefixes, eleven identifier characters, and any
  rest without a line terminator.
\<close>

definition matches_grammar :: "string \<Rightarrow> bool" where
  "matches_grammar s \<longleftrightarrow>
     (\<exists>scheme www host vid rest.
        s = scheme @ ''://'' @ www @ host @ vid @ rest \<and>
        (scheme = ''http'' \<or> scheme = ''https'') \<and>
        (www = [] \<or> www = ''www.'') \<and>
        (host = ''youtube.com/watch?v='' \<or> host = ''youtu.be/'') \<and>
        length vid = 11 \<and> list_all id_char vid \<and> list_all dot rest)"

section \<open>Auxiliary notions\<close>

text \<open>
  Two notions used to state what \<open>path_join\<close> does with a file name: a plain segment
  is a name that normalisation keeps as it is, and \<open>join_prefix dir\<close> is what the
  directory contributes to the joined path.
\<close>

text \<open>
  The invariant of a token (the end is not before the start, the score lies in \<open>[0, 1]\<close>)
  and what it asks of the values a backend reports.
\<close>

fun in_unit :: "jsnum \<Rightarrow> bool" where
  "in_unit (Fin x) = (0 \<le> x \<and> x \<le> 1)"
| "in_unit NaN = False"
| "in_unit PosInf = False"
| "in_unit NegInf = False"

definition token_ok :: "SubtitleToken \<Rightarrow> bool" where
  "token_ok t \<longleftrightarrow> startTimeMs t \<le> endTimeMs t \<and> in_unit (score t)"

definition word_ok :: "word \<Rightarrow> bool" where
  "word_ok w \<longleftrightarrow> w_start w \<le> w_end w \<and> 0 \<le> w_confidence w \<and> w_confidence w \<le> 1"

definition confidence_ok :: "jsval \<Rightarrow> bool" where
  "confidence_ok v \<longleftrightarrow>
     \<not> truthy v \<or> (case ToNumber v of None \<Rightarrow> False | Some n \<Rightarrow> in_unit n)"

definition result_ok :: "recognition_result \<Rightarrow> bool" where
  "result_ok r \<longleftrightarrow>
     0 \<le> duration r \<and> confidence_ok (confidence_property r) \<and> confidence_ok (confidence_field r)"


text \<open>
  Reading an exit code back from its rendering in a message: \<open>null\<close>, or a decimal
  integer with an optional minus sign.
\<close>

definition read_code :: "string \<Rightarrow> int option option" where
  "read_code s =
     (if s = ''null'' then Some None
      else
        (case s of
           [] \<Rightarrow> None
         | c # cs \<Rightarrow>
             if c = CHR ''-'' then map_option (\<lambda>n. Some (- int n)) (radix_literal 10 cs)
             else map_option (\<lambda>n. Some (int n)) (radix_literal 10 s)))"

text \<open>A status answer after which the poll loop sleeps and asks again.\<close>

definition non_terminal :: "thrown + status_data \<Rightarrow> bool" where
  "non_terminal r =
     (case r of Inl e \<Rightarrow> False
      | Inr d \<Rightarrow> status d \<noteq> ''completed'' \<and> status d \<noteq> ''error'')"

definition plain_segment :: "string \<Rightarrow> bool" where
  "plain_segment s \<longleftrightarrow> s \<noteq> [] \<and> s \<noteq> ''.'' \<and> s \<noteq> ''..'' \<and> CHR ''/'' \<notin> set s"

definition join_prefix :: "string \<Rightarrow> string" where
  "join_prefix dir =
     (if dir = [] then []
      else (if hd dir = CHR ''/'' then ''/'' else []) @
           (let st = foldl (normalize_step (hd dir \<noteq> CHR ''/'')) [] (split_path dir)
            in if st = [] then [] else join_segments st @ ''/''))"

section \<open>Properties of FileSystemService\<close>

subsection \<open>Decimal rendering and path joining\<close>

lemma show_nat_nonempty: "show_nat n \<noteq> []"
  by (subst show_nat.simps) simp

lemma digit_cases:
  "d < (10::nat) \<Longrightarrow> d = 0 \<or> d = 1 \<or> d = 2 \<or> d = 3 \<or> d = 4 \<or> d = 5 \<or> d = 6 \<or> d = 7 \<or> d = 8 \<or> d = 9"
  by arith

lemma digit_char_inj: "a < 10 \<Longrightarrow> b < 10 \<Longrightarrow> digit_char a = digit_char b \<Longrightarrow> a = b"
  using digit_cases[of a] digit_cases[of b] by (auto simp add: digit_char_def)

lemma show_nat_inj: "show_nat n = show_nat m \<Longrightarrow> n = m"
proof (induction n arbitrary: m rule: show_nat.induct)
  case (1 n)
  have ne: "\<And>k. [] \<noteq> show_nat k" using show_nat_nonempty by metis
  show ?case
  proof (cases "n < 10")
    case True
    show ?thesis
    proof (cases "m < 10")
      case True
      with \<open>n < 10\<close> 1(2) show ?thesis
        by (simp add: show_nat.simps[of n] show_nat.simps[of m] digit_char_inj)
    next
      case False
      with \<open>n < 10\<close> 1(2) show ?thesis
        by (simp add: show_nat.simps[of n] show_nat.simps[of m] ne)
    qed
  next
    case False
    show ?thesis
    proof (cases "m < 10")
      case True
      with False 1(2) show ?thesis
        by (simp add: show_nat.simps[of n] show_nat.simps[of m] show_nat_nonempty)
    next
      case m: False
      from False m 1(2) have "show_nat (n div 10) = show_nat (m div 10)" and d: "digit_char (n mod 10) = digit_char (m mod 10)"
        by (simp_all add: show_nat.simps[of n] show_nat.simps[of m])
      with 1(1)[OF False] have "n div 10 = m div 10" by simp
      moreover from d have "n mod 10 = m mod 10" by (simp add: digit_char_inj)
      ultimately show ?thesis by (metis div_mult_mod_eq)
    qed
  qed
qed

lemma digit_char_not_sep: "d < 10 \<Longrightarrow> digit_char d \<noteq> CHR ''/''"
  using digit_cases[of d] by (auto simp add: digit_char_def)

lemma show_nat_no_sep: "CHR ''/'' \<notin> set (show_nat n)"
proof (induction n rule: show_nat.induct)
  case (1 n)
  show ?case
  proof (cases "n < 10")
    case True
    then show ?thesis using digit_char_not_sep[of n] by (auto simp add: show_nat.simps[of n])
  next
    case False
    then show ?thesis using 1 digit_char_not_sep[of "n mod 10"]
      by (auto simp add: show_nat.simps[of n])
  qed
qed

lemma temp_name_plain: "CHR ''/'' \<notin> set ext \<Longrightarrow> plain_segment (temp_name now ext)"
  by (simp add: plain_segment_def temp_name_def show_nat_no_sep)

lemma temp_name_inj: "temp_name a ext = temp_name b ext \<Longrightarrow> a = b"
  by (simp add: temp_name_def show_nat_inj)

lemma split_path_nonempty: "split_path s \<noteq> []"
  by (induction s) (auto split: list.split)

lemma split_path_plain: "CHR ''/'' \<notin> set s \<Longrightarrow> split_path s = [s]"
  by (induction s) (auto split: list.split)

lemma split_path_append: "split_path (a @ CHR ''/'' # b) = split_path a @ split_path b"
  by (induction a) (auto split: list.split simp: split_path_nonempty)

lemma join_segments_snoc:
  "join_segments (ss @ [s]) = (if ss = [] then s else join_segments ss @ CHR ''/'' # s)"
  by (induction ss rule: join_segments.induct) auto

lemma path_join_plain:
  assumes "plain_segment name"
  shows "path_join dir name = join_prefix dir @ name"
proof (cases "dir = []")
  case True
  from assms have n: "name \<noteq> []" "hd name \<noteq> CHR ''/''" "last name \<noteq> CHR ''/''"
    by (auto simp: plain_segment_def dest: hd_in_set last_in_set)
  from assms have "foldl (normalize_step True) [] (split_path name) = [name]"
    by (simp add: split_path_plain plain_segment_def normalize_step_def)
  with True n show ?thesis
    by (simp add: path_join_def path_normalize_def normalizeString_def join_prefix_def Let_def)
next
  case False
  let ?p = "dir @ CHR ''/'' # name"
  let ?abs = "hd dir = CHR ''/''"
  let ?st = "foldl (normalize_step (\<not> ?abs)) [] (split_path dir)"
  from assms have n: "name \<noteq> []" "last name \<noteq> CHR ''/''"
    by (auto simp: plain_segment_def dest: last_in_set)
  have hd: "hd ?p = hd dir" using False by simp
  have lst: "last ?p = last name" using n by simp
  have sp: "split_path ?p = split_path dir @ [name]"
    using assms by (simp add: split_path_append split_path_plain plain_segment_def)
  have fold: "foldl (normalize_step (\<not> ?abs)) [] (split_path ?p) = ?st @ [name]"
    using assms by (simp add: sp normalize_step_def plain_segment_def)
  have ns: "normalizeString ?p (\<not> ?abs) = (if ?st = [] then name else join_segments ?st @ CHR ''/'' # name)"
    unfolding normalizeString_def fold by (rule join_segments_snoc)
  have ns_ne: "normalizeString ?p (\<not> ?abs) \<noteq> []"
    using n by (simp add: ns)
  have "path_normalize ?p = (if ?abs then ''/'' else []) @ normalizeString ?p (\<not> ?abs)"
    using ns_ne n by (simp add: path_normalize_def Let_def hd lst)
  also have "\<dots> = join_prefix dir @ name"
    using False by (simp add: ns join_prefix_def Let_def)
  finally have pn: "path_normalize ?p = join_prefix dir @ name" .
  have "path_join dir name = path_normalize ?p"
    using False n by (simp add: path_join_def)
  with pn show ?thesis by simp
qed

lemma path_join_inj:
  "plain_segment a \<Longrightarrow> plain_segment b \<Longrightarrow> path_join dir a = path_join dir b \<Longrightarrow> a = b"
  by (simp add: path_join_plain)


subsection \<open>Temporary files\<close>

lemma show_nat_example: "show_nat 1700000000000 = ''1700000000000''"
  by (simp add: show_nat.simps digit_char_def)

text \<open>
  C2, as stated: two calls in quick succession always return distinct paths. The name has
  the clock reading as its only varying part, so two calls within the same millisecond
  (here 250 microseconds apart) return the same path.
\<close>

theorem makeTempFile_same_millisecond:
  "makeTempFile \<lparr>realpath_tmpdir = Inr ''/tmp'', time_us = 1700000000000000\<rparr> ''wav''
     = Inr ''/tmp/fluent-ai-subtitles-1700000000000.wav'' \<and>
   makeTempFile \<lparr>realpath_tmpdir = Inr ''/tmp'', time_us = 1700000000000250\<rparr> ''wav''
     = Inr ''/tmp/fluent-ai-subtitles-1700000000000.wav''"
  by (simp add: makeTempFile_def tryPromise_def Date_now_def temp_name_def show_nat_example
      path_join_plain plain_segment_def join_prefix_def normalize_step_def)

text \<open>
  C2, amended: two calls that resolve the same temp directory and pass the same
  extension (one without a path separator) return the same path exactly when they read
  the same \<open>Date.now()\<close>; calls whose millisecond readings differ return distinct paths.
\<close>

theorem makeTempFile_distinct_iff_clock:
  assumes "realpath_tmpdir w1 = Inr dir" and "realpath_tmpdir w2 = Inr dir"
    and "CHR ''/'' \<notin> set ext"
  shows "makeTempFile w1 ext = makeTempFile w2 ext \<longleftrightarrow> Date_now w1 = Date_now w2"
proof
  assume "makeTempFile w1 ext = makeTempFile w2 ext"
  with assms(1,2)
  have "path_join dir (temp_name (Date_now w1) ext) = path_join dir (temp_name (Date_now w2) ext)"
    by (simp add: makeTempFile_def tryPromise_def)
  with assms(3) have "temp_name (Date_now w1) ext = temp_name (Date_now w2) ext"
    by (simp add: path_join_plain temp_name_plain)
  then show "Date_now w1 = Date_now w2" by (rule temp_name_inj)
next
  assume "Date_now w1 = Date_now w2"
  with assms(1,2) show "makeTempFile w1 ext = makeTempFile w2 ext"
    by (simp add: makeTempFile_def)
qed

theorem makeTempFile_distinct_iff_clock_witness:
  "makeTempFile \<lparr>realpath_tmpdir = Inr ''/tmp'', time_us = 1700000000000000\<rparr> ''wav'' \<noteq>
   makeTempFile \<lparr>realpath_tmpdir = Inr ''/tmp'', time_us = 1700000000001000\<rparr> ''wav''"
  using makeTempFile_distinct_iff_clock
    [of "\<lparr>realpath_tmpdir = Inr ''/tmp'', time_us = 1700000000000000\<rparr>" "''/tmp''"
        "\<lparr>realpath_tmpdir = Inr ''/tmp'', time_us = 1700000000001000\<rparr>" "''wav''"]
  by (simp add: Date_now_def)

text \<open>
  C3, as stated: when the temp directory cannot be resolved the failure is tagged
  \<open>ResourceError\<close>. The failure \<open>makeTempFile\<close> produces has another tag.
\<close>

theorem makeTempFile_failure_not_ResourceError:
  "makeTempFile \<lparr>realpath_tmpdir = Inl (JsError ''ENOENT: no such file or directory, realpath''),
                  time_us = 1700000000000000\<rparr> ''wav''
     = Inl (YoutubeDownloadError (JsError ''ENOENT: no such file or directory, realpath'')) \<and>
   error_tag (YoutubeDownloadError (JsError ''ENOENT: no such file or directory, realpath''))
     \<noteq> ''ResourceError''"
  by (simp add: makeTempFile_def tryPromise_def)

text \<open>
  C3, amended: when resolving the temp directory fails, \<open>makeTempFile\<close> fails with a
  \<open>YoutubeDownloadError\<close> that carries the cause, and with no other tag.
\<close>

theorem makeTempFile_unresolved_tmpdir:
  assumes "realpath_tmpdir w = Inl cause"
  shows "makeTempFile w ext = Inl (YoutubeDownloadError cause) \<and>
         (\<forall>e. makeTempFile w ext = Inl e \<longrightarrow> error_tag e = ''YoutubeDownloadError'')"
  using assms by (simp add: makeTempFile_def tryPromise_def)

theorem makeTempFile_unresolved_tmpdir_witness:
  "makeTempFile \<lparr>realpath_tmpdir = Inl (JsError ''EACCES''), time_us = 5\<rparr> ''wav''
     = Inl (YoutubeDownloadError (JsError ''EACCES''))"
  using makeTempFile_unresolved_tmpdir
    [of "\<lparr>realpath_tmpdir = Inl (JsError ''EACCES''), time_us = 5\<rparr>" "JsError ''EACCES''" "''wav''"]
  by simp

subsection \<open>Release\<close>

text \<open>
  C9. For every path and every state of the file system, \<open>cleanupFile\<close> completes with
  success: a missing file and any other failure of \<open>unlink\<close> are both swallowed. Releasing
  the same path a second time, on the file system the first release left, succeeds too.
\<close>

theorem cleanupFile_never_fails:
  "fst (cleanupFile fs path) = Inr () \<and>
   fst (cleanupFile (snd (cleanupFile fs path)) path) = Inr ()"
  by (simp add: cleanupFile_def unlink_def catchAll_def tryPromise_def
      split: option.split fs_entry.split)

theorem cleanupFile_never_fails_witness:
  "fst (cleanupFile ((\<lambda>_. None)(''/tmp/a.wav'' := Some (Stuck ''EPERM''))) ''/tmp/a.wav'') = Inr () \<and>
   fst (cleanupFile (snd (cleanupFile ((\<lambda>_. None)(''/tmp/a.wav'' := Some (Stuck ''EPERM''))) ''/tmp/a.wav''))
          ''/tmp/a.wav'') = Inr ()"
  using cleanupFile_never_fails [of "(\<lambda>_. None)(''/tmp/a.wav'' := Some (Stuck ''EPERM''))" "''/tmp/a.wav''"]
  by simp

section \<open>Properties of YouTubeDownloader\<close>

subsection \<open>The exit code can be read back from its rendering\<close>

lemma radix_digit_digit_char: "d < 10 \<Longrightarrow> radix_digit 10 (digit_char d) = Some d"
  using digit_cases[of d]
  by (auto simp add: digit_char_def radix_digit_def hex_digit_def digit_of_def)

lemma digits_value_append:
  "digits_value radix acc (xs @ ys) =
     (case digits_value radix acc xs of None \<Rightarrow> None | Some v \<Rightarrow> digits_value radix v ys)"
  by (induction xs arbitrary: acc) (auto split: option.splits)

lemma digits_value_show_nat: "digits_value 10 0 (show_nat n) = Some n"
proof (induction n rule: show_nat.induct)
  case (1 n)
  show ?case
  proof (cases "n < 10")
    case True
    then show ?thesis
      by (simp add: show_nat.simps[of n] radix_digit_digit_char)
  next
    case False
    with 1 have "digits_value 10 0 (show_nat (n div 10)) = Some (n div 10)" by simp
    with False show ?thesis
      by (simp add: show_nat.simps[of n] digits_value_append radix_digit_digit_char)
  qed
qed

lemma show_nat_digits: "c \<in> set (show_nat n) \<Longrightarrow> \<exists>d<10. c = digit_char d"
proof (induction n rule: show_nat.induct)
  case (1 n)
  show ?case
  proof (cases "n < 10")
    case True
    with 1(2) show ?thesis by (auto simp add: show_nat.simps[of n])
  next
    case False
    with 1 show ?thesis
      by (auto simp add: show_nat.simps[of n] intro: exI[of _ "n mod 10"])
  qed
qed

lemma show_nat_plain: "show_nat n \<noteq> ''null''" "hd (show_nat n) \<noteq> CHR ''-''"
proof -
  have d: "c \<noteq> CHR ''n'' \<and> c \<noteq> CHR ''-''" if "c \<in> set (show_nat n)" for c
  proof -
    from that obtain k where "k < 10" "c = digit_char k" by (blast dest: show_nat_digits)
    then show ?thesis using digit_cases[of k] by (auto simp add: digit_char_def)
  qed
  show "show_nat n \<noteq> ''null''"
  proof
    assume "show_nat n = ''null''"
    then have "CHR ''n'' \<in> set (show_nat n)" by simp
    with d show False by blast
  qed
  have "hd (show_nat n) \<in> set (show_nat n)"
    using show_nat_nonempty by (rule hd_in_set)
  with d show "hd (show_nat n) \<noteq> CHR ''-''" by blast
qed

lemma read_code_show_nat: "read_code (show_nat n) = Some (Some (int n))"
proof -
  obtain c cs where s: "show_nat n = c # cs"
    using show_nat_nonempty[of n] by (cases "show_nat n") auto
  with show_nat_plain[of n] have "c \<noteq> CHR ''-''" "c # cs \<noteq> ''null''" by auto
  moreover have "radix_literal 10 (c # cs) = Some n"
    using digits_value_show_nat[of n] s by (simp add: radix_literal_def)
  ultimately show ?thesis by (simp add: read_code_def s)
qed

lemma read_code_show_code: "read_code (show_code code) = Some code"
proof (cases code)
  case None
  then show ?thesis by (simp add: show_code_def read_code_def)
next
  case (Some i)
  show ?thesis
  proof (cases "i < 0")
    case True
    have "radix_literal 10 (show_nat (nat (- i))) = Some (nat (- i))"
      using digits_value_show_nat show_nat_nonempty by (simp add: radix_literal_def)
    with True Some show ?thesis
      by (simp add: show_code_def show_int_def read_code_def)
  next
    case False
    with Some show ?thesis
      by (simp add: show_code_def show_int_def read_code_show_nat)
  qed
qed

subsection \<open>Exit codes\<close>

text \<open>
  C7. With the temp path reserved and the extraction process an event emitter, the first
  event decides. A \<open>close\<close> with exit code 0 makes \<open>getAudio\<close> resolve with the reserved
  path. A \<open>close\<close> with any other code \<open>c\<close> (also \<open>null\<close>) makes it fail with a
  \<open>YoutubeDownloadError\<close> whose cause is a \<open>YoutubeDownloadError\<close> with the message
  \<open>yt-dlp exited with code c\<close>, from which \<open>c\<close> is read back. An \<open>error\<close> event, which is
  how the wrapper may report a failed process, makes it fail with a
  \<open>YoutubeDownloadError\<close> whose cause is the very error the emitter passed.
\<close>

theorem getAudio_exit_code:
  assumes "makeTempFile w ''wav'' = Inr file"
    and "exec [url, ''-x'', ''--audio-format'', ''wav'', ''-o'', file]
           = Spawned Emitter (ev # later)"
  shows "(ev = ProcClose (Some 0) \<longrightarrow> getAudio w exec url = Some (Inr file)) \<and>
         (\<forall>code. ev = ProcClose code \<and> code \<noteq> Some 0 \<longrightarrow>
            (\<exists>msg. getAudio w exec url =
                      Some (Inl (YoutubeDownloadError (Tagged (YoutubeDownloadError (JsError msg))))) \<and>
                    msg = ''yt-dlp exited with code '' @ show_code code \<and>
                    read_code (drop (length ''yt-dlp exited with code '') msg) = Some code)) \<and>
         (\<forall>e. ev = ProcError e \<longrightarrow> getAudio w exec url = Some (Inl (YoutubeDownloadError e)))"
  using assms
  by (auto simp add: getAudio_def extraction_promise_def tryPromise_def effect_map_def
      read_code_show_code)

lemma show_code_examples:
  "show_code (Some 1) = ''1''" "show_code (Some 127) = ''127''" "show_code (Some (- 2)) = ''-2''"
  "show_code None = ''null''"
  by (simp_all add: show_code_def show_int_def show_nat.simps digit_char_def)

theorem getAudio_exit_code_witness:
  "getAudio \<lparr>realpath_tmpdir = Inr ''/tmp'', time_us = 1700000000000000\<rparr>
      (\<lambda>args. Spawned Emitter [ProcClose (Some 0)]) ''https://youtu.be/dQw4w9WgXcQ''
     = Some (Inr ''/tmp/fluent-ai-subtitles-1700000000000.wav'') \<and>
   getAudio \<lparr>realpath_tmpdir = Inr ''/tmp'', time_us = 1700000000000000\<rparr>
      (\<lambda>args. Spawned Emitter [ProcClose (Some 127)]) ''https://youtu.be/dQw4w9WgXcQ''
     = Some (Inl (YoutubeDownloadError (Tagged (YoutubeDownloadError
               (JsError ''yt-dlp exited with code 127''))))) \<and>
   read_code ''127'' = Some (Some 127) \<and>
   getAudio \<lparr>realpath_tmpdir = Inr ''/tmp'', time_us = 1700000000000000\<rparr>
      (\<lambda>args. Spawned Emitter [ProcClose (Some (- 2))]) ''https://youtu.be/dQw4w9WgXcQ''
     = Some (Inl (YoutubeDownloadError (Tagged (YoutubeDownloadError
               (JsError ''yt-dlp exited with code -2''))))) \<and>
   read_code ''-2'' = Some (Some (- 2)) \<and>
   getAudio \<lparr>realpath_tmpdir = Inr ''/tmp'', time_us = 1700000000000000\<rparr>
      (\<lambda>args. Spawned Emitter [ProcError (JsError ''Error code: 1'')]) ''https://youtu.be/dQw4w9WgXcQ''
     = Some (Inl (YoutubeDownloadError (JsError ''Error code: 1'')))"
proof -
  let ?w = "\<lparr>realpath_tmpdir = Inr ''/tmp'', time_us = 1700000000000000\<rparr>"
  let ?f = "''/tmp/fluent-ai-subtitles-1700000000000.wav''"
  let ?u = "''https://youtu.be/dQw4w9WgXcQ''"
  have f: "makeTempFile ?w ''wav'' = Inr ?f"
    by (simp add: makeTempFile_def tryPromise_def Date_now_def temp_name_def show_nat_example
        path_join_plain plain_segment_def join_prefix_def normalize_step_def)
  show ?thesis
    using getAudio_exit_code [OF f, of "\<lambda>args. Spawned Emitter [ProcClose (Some 0)]" ?u
              "ProcClose (Some 0)" "[]"]
          getAudio_exit_code [OF f, of "\<lambda>args. Spawned Emitter [ProcClose (Some 127)]" ?u
              "ProcClose (Some 127)" "[]"]
          getAudio_exit_code [OF f, of "\<lambda>args. Spawned Emitter [ProcClose (Some (- 2))]" ?u
              "ProcClose (Some (- 2))" "[]"]
          getAudio_exit_code [OF f, of "\<lambda>args. Spawned Emitter [ProcError (JsError ''Error code: 1'')]" ?u
              "ProcError (JsError ''Error code: 1'')" "[]"]
    by (simp add: show_code_examples)
qed

section \<open>Properties of the poll loop\<close>

lemma non_terminalD:
  "non_terminal r \<Longrightarrow> \<exists>d. r = Inr d \<and> status d \<noteq> ''completed'' \<and> status d \<noteq> ''error''"
  by (cases r) (simp_all add: non_terminal_def)

lemma poll_loop_times_out_from:
  assumes nt: "\<forall>j. non_terminal (st j)" and na: "\<forall>j. \<not> ab j"
  shows "k \<le> 401 \<Longrightarrow>
    poll_loop st ab k (3000 * k) = (Inl (JsError ''Transcription timed out''), 401, 1203000)"
proof (induction "401 - k" arbitrary: k)
  case 0
  then have "k = 401" by simp
  with na show ?case
    by (subst poll_loop.simps) (simp add: MAX_POLL_TIME_def)
next
  case (Suc n)
  then have k: "k < 401" by simp
  from nt have "non_terminal (st k)" by simp
  then obtain d where d: "st k = Inr d" "status d \<noteq> ''completed''" "status d \<noteq> ''error''"
    by (blast dest: non_terminalD)
  from Suc.hyps(2) have "n = 401 - Suc k" by arith
  moreover from k have "Suc k \<le> 401" by simp
  ultimately have ih: "poll_loop st ab (Suc k) (3000 * Suc k)
      = (Inl (JsError ''Transcription timed out''), 401, 1203000)"
    by (rule Suc.hyps(1))
  from k have le: "\<not> 3000 * k > MAX_POLL_TIME" by (simp add: MAX_POLL_TIME_def)
  have "poll_loop st ab k (3000 * k) = poll_loop st ab (Suc k) (3000 * k + POLL_INTERVAL)"
    using na le d by (subst poll_loop.simps) simp
  also have "3000 * k + POLL_INTERVAL = 3000 * Suc k" by (simp add: POLL_INTERVAL_def)
  finally show ?case using ih by (simp only:)
qed

lemma poll_loop_completed_from:
  assumes nt: "\<forall>j<k. non_terminal (st j)" and na: "\<forall>j\<le>k. \<not> ab j" and k: "k \<le> 400"
    and d: "st k = Inr d" "status d = ''completed''"
  shows "i \<le> k \<Longrightarrow>
    poll_loop st ab i (3000 * i)
      = (Inr (words_to_subtitles (case words d of None \<Rightarrow> [] | Some ws \<Rightarrow> ws)), Suc k, 3000 * k)"
proof (induction "k - i" arbitrary: i)
  case 0
  then have "i = k" by simp
  moreover from k have "\<not> 3000 * k > MAX_POLL_TIME" by (simp add: MAX_POLL_TIME_def)
  ultimately show ?case using na d
    by (subst poll_loop.simps) simp
next
  case (Suc n)
  then have i: "i < k" by simp
  with nt have "non_terminal (st i)" by simp
  then obtain e where e: "st i = Inr e" "status e \<noteq> ''completed''" "status e \<noteq> ''error''"
    by (blast dest: non_terminalD)
  from i k have le: "\<not> 3000 * i > MAX_POLL_TIME" by (simp add: MAX_POLL_TIME_def)
  from i na have nab: "\<not> ab i" by simp
  have "poll_loop st ab i (3000 * i) = poll_loop st ab (Suc i) (3000 * i + POLL_INTERVAL)"
    using nab le e by (subst poll_loop.simps) simp
  also have "3000 * i + POLL_INTERVAL = 3000 * Suc i" by (simp add: POLL_INTERVAL_def)
  finally have step: "poll_loop st ab i (3000 * i) = poll_loop st ab (Suc i) (3000 * Suc i)" .
  from Suc.hyps(2) have "n = k - Suc i" by arith
  moreover from i have "Suc i \<le> k" by simp
  ultimately have "poll_loop st ab (Suc i) (3000 * Suc i)
      = (Inr (words_to_subtitles (case words d of None \<Rightarrow> [] | Some ws \<Rightarrow> ws)), Suc k, 3000 * k)"
    by (rule Suc.hyps(1))
  with step show ?case by (simp only:)
qed

lemma length_words_to_subtitles: "length (words_to_subtitles ws) = length ws"
  by (simp add: words_to_subtitles_def)

lemma nth_words_to_subtitles:
  "i < length ws \<Longrightarrow> words_to_subtitles ws ! i =
     \<lparr>id_tok = i, value_tok = w_text (ws ! i), startTimeMs = w_start (ws ! i),
      endTimeMs = w_end (ws ! i), score = Fin (w_confidence (ws ! i))\<rparr>"
  by (simp add: words_to_subtitles_def nth_enumerate_eq)

lemma poll_loop_requests_bounded:
  "elapsed = 3000 * k \<Longrightarrow> fst (snd (poll_loop st ab k elapsed)) \<le> max k 401"
proof (induction st ab k elapsed rule: poll_loop.induct)
  case (1 st ab k elapsed)
  show ?case
  proof (cases "ab k \<or> elapsed > MAX_POLL_TIME")
    case True
    then show ?thesis by (subst poll_loop.simps) auto
  next
    case False
    with 1(2) have k: "k \<le> 400" by (simp add: MAX_POLL_TIME_def)
    show ?thesis
    proof (cases "st k")
      case (Inl e)
      with False k show ?thesis by (subst poll_loop.simps) auto
    next
      case (Inr d)
      show ?thesis
      proof (cases "status d = ''completed'' \<or> status d = ''error''")
        case True
        with False k Inr show ?thesis by (subst poll_loop.simps) auto
      next
        case nt: False
        from False nt Inr 1(2) have "fst (snd (poll_loop st ab (Suc k) (elapsed + POLL_INTERVAL))) \<le> max (Suc k) 401"
          by (intro 1(1)) (auto simp: POLL_INTERVAL_def)
        with False nt Inr k show ?thesis by (subst poll_loop.simps) auto
      qed
    qed
  qed
qed


text \<open>
  C6. When the first \<open>k\<close> status answers are non-terminal, nothing aborts, and answer
  \<open>k\<close> (within the time limit) has status \<open>completed\<close> with the word list \<open>ws\<close>, then
  \<open>transcribe\<close> returns exactly \<open>length ws\<close> tokens, token \<open>i\<close> being word \<open>i\<close> with
  \<open>id = i\<close> and the word's text, start, end and confidence.
\<close>

theorem completed_poll_maps_words:
  assumes "readFile b filePath = Inr audioBuffer" and "upload b audioBuffer = Inr upload_url"
    and "submit b upload_url = Inr transcriptId"
    and "k \<le> 400" and "\<forall>j<k. non_terminal (poll_status b transcriptId j)"
    and "\<forall>j\<le>k. \<not> aborted b j"
    and "poll_status b transcriptId k = Inr d" and "status d = ''completed''"
    and "words d = Some ws"
  shows "\<exists>toks. transcribe_assembly b filePath = Inr toks \<and> length toks = length ws \<and>
           (\<forall>i<length ws. toks ! i =
              \<lparr>id_tok = i, value_tok = w_text (ws ! i), startTimeMs = w_start (ws ! i),
               endTimeMs = w_end (ws ! i), score = Fin (w_confidence (ws ! i))\<rparr>)"
proof -
  have "poll_loop (poll_status b transcriptId) (aborted b) 0 (3000 * 0)
      = (Inr (words_to_subtitles (case words d of None \<Rightarrow> [] | Some ws \<Rightarrow> ws)), Suc k, 3000 * k)"
    using assms(5,6,4,7,8) by (rule poll_loop_completed_from) simp
  with assms have "transcribe_assembly b filePath = Inr (words_to_subtitles ws)"
    by (simp add: transcribe_assembly_def assembly_body_def tryPromise_def)
  then show ?thesis
    by (simp add: length_words_to_subtitles nth_words_to_subtitles)
qed

theorem completed_poll_maps_words_witness:
  "transcribe_assembly
     \<lparr>readFile = \<lambda>p. Inr ''RIFF'', upload = \<lambda>a. Inr (Some ''https://cdn.example/u1''),
      submit = \<lambda>u. Inr (Some ''t1''),
      poll_status = \<lambda>t j. Inr \<lparr>status = ''completed'', text_sd = Some ''hi'',
         words = Some [\<lparr>w_text = ''hi'', w_start = 100, w_end = 400, w_confidence = 0.9\<rparr>],
         error = None\<rparr>,
      aborted = \<lambda>j. False\<rparr> ''/tmp/a.wav''
   = Inr [\<lparr>id_tok = 0, value_tok = ''hi'', startTimeMs = 100, endTimeMs = 400, score = Fin 0.9\<rparr>]"
proof -
  let ?d = "\<lparr>status = ''completed'', text_sd = Some ''hi'',
         words = Some [\<lparr>w_text = ''hi'', w_start = 100, w_end = 400, w_confidence = 0.9\<rparr>],
         error = None\<rparr>"
  let ?b = "\<lparr>readFile = \<lambda>p. Inr ''RIFF'', upload = \<lambda>a. Inr (Some ''https://cdn.example/u1''),
      submit = \<lambda>u. Inr (Some ''t1''), poll_status = \<lambda>t j. Inr ?d, aborted = \<lambda>j. False\<rparr>"
  from completed_poll_maps_words [of ?b "''/tmp/a.wav''" "''RIFF''" "Some ''https://cdn.example/u1''"
      "Some ''t1''" 0 ?d "[\<lparr>w_text = ''hi'', w_start = 100, w_end = 400, w_confidence = 0.9\<rparr>]"]
  obtain toks where t: "transcribe_assembly ?b ''/tmp/a.wav'' = Inr toks" "length toks = 1"
    "toks ! 0 = \<lparr>id_tok = 0, value_tok = ''hi'', startTimeMs = 100, endTimeMs = 400, score = Fin 0.9\<rparr>"
    by auto
  from t(2,3) have "toks = [\<lparr>id_tok = 0, value_tok = ''hi'', startTimeMs = 100, endTimeMs = 400, score = Fin 0.9\<rparr>]"
    by (cases toks) auto
  with t(1) show ?thesis by simp
qed

text \<open>
  C8. The poll loop is a total function: its recursion is bounded by the time slept, so it
  ends for every sequence of answers (\<open>poll_loop_requests_bounded\<close>: at most 401
  requests). When no answer is ever terminal and nothing aborts, each of the 401
  iterations sleeps the interval, the time slept then exceeds the limit, and the call
  fails with the timeout error.
\<close>

theorem never_terminal_polling_times_out:
  assumes "readFile b filePath = Inr audioBuffer" and "upload b audioBuffer = Inr upload_url"
    and "submit b upload_url = Inr transcriptId"
    and "\<forall>j. non_terminal (poll_status b transcriptId j)"
    and "\<forall>j. \<not> aborted b j"
  shows "poll_loop (poll_status b transcriptId) (aborted b) 0 0
           = (Inl (JsError ''Transcription timed out''), 401, 401 * POLL_INTERVAL) \<and>
         MAX_POLL_TIME < 401 * POLL_INTERVAL \<and>
         transcribe_assembly b filePath
           = Inl (TranscriptionError (JsError ''Transcription timed out''))"
proof -
  have "poll_loop (poll_status b transcriptId) (aborted b) 0 (3000 * 0)
      = (Inl (JsError ''Transcription timed out''), 401, 1203000)"
    using assms(4,5) by (rule poll_loop_times_out_from) simp
  then have p: "poll_loop (poll_status b transcriptId) (aborted b) 0 0
      = (Inl (JsError ''Transcription timed out''), 401, 1203000)"
    by simp
  with assms(1-3) have "transcribe_assembly b filePath
      = Inl (TranscriptionError (JsError ''Transcription timed out''))"
    by (simp add: transcribe_assembly_def assembly_body_def tryPromise_def to_Error_def)
  with p show ?thesis by (simp add: POLL_INTERVAL_def MAX_POLL_TIME_def)
qed

theorem never_terminal_polling_times_out_witness:
  "transcribe_assembly
     \<lparr>readFile = \<lambda>p. Inr ''RIFF'', upload = \<lambda>a. Inr (Some ''https://cdn.example/u1''),
      submit = \<lambda>u. Inr (Some ''t1''),
      poll_status = \<lambda>t j. Inr \<lparr>status = ''processing'', text_sd = None, words = None, error = None\<rparr>,
      aborted = \<lambda>j. False\<rparr> ''/tmp/a.wav''
   = Inl (TranscriptionError (JsError ''Transcription timed out''))"
  using never_terminal_polling_times_out
    [of "\<lparr>readFile = \<lambda>p. Inr ''RIFF'', upload = \<lambda>a. Inr (Some ''https://cdn.example/u1''),
      submit = \<lambda>u. Inr (Some ''t1''),
      poll_status = \<lambda>t j. Inr \<lparr>status = ''processing'', text_sd = None, words = None, error = None\<rparr>,
      aborted = \<lambda>j. False\<rparr>" "''/tmp/a.wav''" "''RIFF''" "Some ''https://cdn.example/u1''" "Some ''t1''"]
  by (simp add: non_terminal_def)


section \<open>Properties of the tokens\<close>

lemma poll_loop_Inr_source:
  "fst (poll_loop st ab k elapsed) = Inr toks \<Longrightarrow>
     \<exists>j d. st j = Inr d \<and> status d = ''completed'' \<and>
       toks = words_to_subtitles (case words d of None \<Rightarrow> [] | Some ws \<Rightarrow> ws)"
proof (induction st ab k elapsed rule: poll_loop.induct)
  case (1 st ab k elapsed)
  show ?case
  proof (cases "ab k \<or> elapsed > MAX_POLL_TIME")
    case True
    with 1(2) show ?thesis by (subst (asm) poll_loop.simps) (auto split: if_splits)
  next
    case False
    show ?thesis
    proof (cases "st k")
      case (Inl e)
      with False 1(2) show ?thesis by (subst (asm) poll_loop.simps) (auto split: if_splits)
    next
      case (Inr d)
      show ?thesis
      proof (cases "status d = ''completed''")
        case True
        with False Inr 1(2) have "toks = words_to_subtitles (case words d of None \<Rightarrow> [] | Some ws \<Rightarrow> ws)"
          by (subst (asm) poll_loop.simps) (auto split: if_splits)
        with Inr True show ?thesis by blast
      next
        case nc: False
        show ?thesis
        proof (cases "status d = ''error''")
          case True
          with False Inr nc 1(2) show ?thesis by (subst (asm) poll_loop.simps) (auto split: if_splits)
        next
          case ne: False
          from False Inr nc ne 1(2)
          have "fst (poll_loop st ab (Suc k) (elapsed + POLL_INTERVAL)) = Inr toks"
            by (subst (asm) poll_loop.simps) (auto split: if_splits)
          with False Inr nc ne show ?thesis by (intro 1(1)) auto
        qed
      qed
    qed
  qed
qed

lemma words_to_subtitles_ok:
  assumes "\<forall>w\<in>set ws. word_ok w" and "t \<in> set (words_to_subtitles ws)"
  shows "token_ok t"
proof -
  from assms(2) obtain i where i: "i < length ws" "t = words_to_subtitles ws ! i"
    by (auto simp: in_set_conv_nth length_words_to_subtitles)
  with assms(1) have "word_ok (ws ! i)" by simp
  with i show ?thesis
    by (simp add: nth_words_to_subtitles token_ok_def word_ok_def)
qed

lemma pick_confidence_in_unit:
  assumes "confidence_ok (confidence_property r)" and "confidence_ok (confidence_field r)"
    and "ToNumber (pick_confidence r) = Some n"
  shows "in_unit n"
proof (cases "truthy (confidence_property r)")
  case True
  with assms(3) have "ToNumber (confidence_property r) = Some n"
    by (simp add: pick_confidence_def js_or_def)
  with True assms(1) show ?thesis by (simp add: confidence_ok_def)
next
  case False
  show ?thesis
  proof (cases "truthy (confidence_field r)")
    case True
    with False assms(3) have "ToNumber (confidence_field r) = Some n"
      by (simp add: pick_confidence_def js_or_def)
    with True assms(2) show ?thesis by (simp add: confidence_ok_def)
  next
    case nf: False
    with False assms(3) have "n = Fin 0.5"
      by (simp add: pick_confidence_def js_or_def)
    then show ?thesis by simp
  qed
qed

lemma recognized_ok:
  assumes "\<forall>t\<in>set results. token_ok t"
    and "\<forall>r. e = Some r \<longrightarrow> reason r = RecognizedSpeech \<longrightarrow> result_ok r"
  shows "\<forall>t\<in>set (recognized results e). token_ok t"
proof (cases e)
  case None
  with assms(1) show ?thesis by (simp add: recognized_def)
next
  case (Some r)
  show ?thesis
  proof (cases "reason r = RecognizedSpeech")
    case False
    with Some assms(1) show ?thesis by (simp add: recognized_def)
  next
    case True
    with Some assms(2) have ok: "result_ok r" by simp
    show ?thesis
    proof (cases "ToNumber (pick_confidence r)")
      case None
      with Some True assms(1) show ?thesis by (simp add: recognized_def)
    next
      case (Some n)
      with ok have "in_unit n"
        by (auto simp: result_ok_def intro: pick_confidence_in_unit)
      with ok Some \<open>e = Some r\<close> True assms(1) show ?thesis
        by (simp add: recognized_def token_ok_def result_ok_def divide_right_mono)
    qed
  qed
qed

lemma collect_ok:
  assumes "\<forall>t\<in>set results. token_ok t"
    and "\<forall>r. RecognizedEv (Some r) \<in> set evs \<longrightarrow> reason r = RecognizedSpeech \<longrightarrow> result_ok r"
  shows "\<forall>t\<in>set (fst (collect results st evs)). token_ok t"
  using assms
proof (induction results st evs rule: collect.induct)
  case (2 results st e evs)
  have "\<forall>t\<in>set (recognized results e). token_ok t"
    using 2(2,3) by (intro recognized_ok) auto
  then show ?case using 2(3) by (simp add: 2(1))
qed auto

lemma poll_loop_completed_first:
  "\<not> ab 0 \<Longrightarrow> st 0 = Inr d \<Longrightarrow> status d = ''completed'' \<Longrightarrow>
     poll_loop st ab 0 0
       = (Inr (words_to_subtitles (case words d of None \<Rightarrow> [] | Some ws \<Rightarrow> ws)), Suc 0, 0)"
  by (subst poll_loop.simps) (simp add: MAX_POLL_TIME_def)

lemma transcribe_assembly_first_poll:
  "transcribe_assembly
     \<lparr>readFile = \<lambda>p. Inr ''RIFF'', upload = \<lambda>a. Inr (Some ''https://cdn.example/u1''),
      submit = \<lambda>u. Inr (Some ''t1''),
      poll_status = \<lambda>t j. Inr \<lparr>status = ''completed'', text_sd = tx, words = Some ws, error = None\<rparr>,
      aborted = \<lambda>j. False\<rparr> ''/tmp/a.wav''
   = Inr (words_to_subtitles ws)"
  by (simp add: transcribe_assembly_def assembly_body_def tryPromise_def poll_loop_completed_first)


lemma pick_confidence_truthy: "truthy (pick_confidence r)"
  by (simp add: pick_confidence_def js_or_def)


text \<open>
  C5, as stated: every token either strategy returns has its end at or after its start
  and its score in \<open>[0, 1]\<close>, whatever the backend reports. The poll strategy copies the
  word's start, end and confidence as they are: a word that ends before it starts and has
  confidence 1.5 gives a token that breaks both bounds.
\<close>

theorem backend_values_copied_unchecked:
  "transcribe_assembly
     \<lparr>readFile = \<lambda>p. Inr ''RIFF'', upload = \<lambda>a. Inr (Some ''https://cdn.example/u1''),
      submit = \<lambda>u. Inr (Some ''t1''),
      poll_status = \<lambda>t j. Inr \<lparr>status = ''completed'', text_sd = Some ''x'',
         words = Some [\<lparr>w_text = ''x'', w_start = 400, w_end = 100, w_confidence = 1.5\<rparr>],
         error = None\<rparr>,
      aborted = \<lambda>j. False\<rparr> ''/tmp/a.wav''
   = Inr [\<lparr>id_tok = 0, value_tok = ''x'', startTimeMs = 400, endTimeMs = 100, score = Fin 1.5\<rparr>] \<and>
   \<not> startTimeMs \<lparr>id_tok = 0, value_tok = ''x'', startTimeMs = 400, endTimeMs = 100, score = Fin 1.5\<rparr>
       \<le> endTimeMs \<lparr>id_tok = 0, value_tok = ''x'', startTimeMs = 400, endTimeMs = 100, score = Fin 1.5\<rparr> \<and>
   \<not> in_unit (score \<lparr>id_tok = 0, value_tok = ''x'', startTimeMs = 400, endTimeMs = 100, score = Fin 1.5\<rparr>)"
  by (simp add: transcribe_assembly_first_poll words_to_subtitles_def)

text \<open>
  C5, amended: the tokens satisfy both bounds whenever the values the backend reports do.
  For the poll strategy: every reported word has \<open>start \<le> end\<close> and a confidence in
  \<open>[0, 1]\<close>. For continuous recognition: every recognised result has a duration that is
  not negative, and each of its two confidence sources (the property and the field) is
  absent or falsy, or a value that \<open>Number\<close> converts into \<open>[0, 1]\<close>.
\<close>

theorem tokens_ok_when_backend_values_are:
  "((\<forall>t j d ws. poll_status b t j = Inr d \<longrightarrow> words d = Some ws \<longrightarrow> (\<forall>w\<in>set ws. word_ok w)) \<longrightarrow>
     transcribe_assembly b filePath = Inr toks \<longrightarrow> (\<forall>t\<in>set toks. token_ok t)) \<and>
   ((\<forall>r. RecognizedEv (Some r) \<in> set evs \<longrightarrow> reason r = RecognizedSpeech \<longrightarrow> result_ok r) \<longrightarrow>
     transcribe_continuous build_error evs = Some (Inr toks') \<longrightarrow> (\<forall>t\<in>set toks'. token_ok t))"
proof (intro conjI impI)
  assume ok: "\<forall>t j d ws. poll_status b t j = Inr d \<longrightarrow> words d = Some ws \<longrightarrow> (\<forall>w\<in>set ws. word_ok w)"
    and tr: "transcribe_assembly b filePath = Inr toks"
  from tr obtain tid where "fst (poll_loop (poll_status b tid) (aborted b) 0 0) = Inr toks"
    by (auto simp: transcribe_assembly_def assembly_body_def tryPromise_def
        split: sum.splits settled.splits)
  then obtain j d where d: "poll_status b tid j = Inr d"
      "toks = words_to_subtitles (case words d of None \<Rightarrow> [] | Some ws \<Rightarrow> ws)"
    by (blast dest: poll_loop_Inr_source)
  show "\<forall>t\<in>set toks. token_ok t"
  proof (cases "words d")
    case None
    with d show ?thesis by (simp add: words_to_subtitles_def)
  next
    case (Some ws)
    with ok d(1) have "\<forall>w\<in>set ws. word_ok w" by blast
    with d(2) Some show ?thesis by (auto intro: words_to_subtitles_ok)
  qed
next
  assume ok: "\<forall>r. RecognizedEv (Some r) \<in> set evs \<longrightarrow> reason r = RecognizedSpeech \<longrightarrow> result_ok r"
    and tr: "transcribe_continuous build_error evs = Some (Inr toks')"
  from tr have "toks' = fst (collect [] Pending evs)"
    by (cases build_error; cases "collect [] Pending evs"; cases "snd (collect [] Pending evs)")
       (auto simp: transcribe_continuous_def recognition_promise_def tryPromise_def)
  with collect_ok[OF _ ok, of "[]" Pending] show "\<forall>t\<in>set toks'. token_ok t"
    by simp
qed

theorem tokens_ok_when_backend_values_are_witness:
  "transcribe_assembly
     \<lparr>readFile = \<lambda>p. Inr ''RIFF'', upload = \<lambda>a. Inr (Some ''https://cdn.example/u1''),
      submit = \<lambda>u. Inr (Some ''t1''),
      poll_status = \<lambda>t j. Inr \<lparr>status = ''completed'', text_sd = Some ''hi'',
         words = Some [\<lparr>w_text = ''hi'', w_start = 100, w_end = 400, w_confidence = 0.9\<rparr>],
         error = None\<rparr>,
      aborted = \<lambda>j. False\<rparr> ''/tmp/a.wav''
     = Inr [\<lparr>id_tok = 0, value_tok = ''hi'', startTimeMs = 100, endTimeMs = 400, score = Fin 0.9\<rparr>] \<and>
   token_ok \<lparr>id_tok = 0, value_tok = ''hi'', startTimeMs = 100, endTimeMs = 400, score = Fin 0.9\<rparr> \<and>
   transcribe_continuous None
     [RecognizedEv (Some \<lparr>reason = 3, text_res = ''hello'', offset = 0, duration = 50000,
        confidence_property = JUndefined, confidence_field = JNum (Fin 0.9)\<rparr>),
      SessionStopped,
      RecognizedEv (Some \<lparr>reason = 3, text_res = ''late'', offset = 50000, duration = 10000,
        confidence_property = JStr [], confidence_field = JNull\<rparr>)]
     = Some (Inr [\<lparr>id_tok = 0, value_tok = ''hello'', startTimeMs = 0, endTimeMs = 5, score = Fin 0.9\<rparr>,
                  \<lparr>id_tok = 1, value_tok = ''late'', startTimeMs = 5, endTimeMs = 6, score = Fin 0.5\<rparr>]) \<and>
   token_ok \<lparr>id_tok = 0, value_tok = ''hello'', startTimeMs = 0, endTimeMs = 5, score = Fin 0.9\<rparr> \<and>
   token_ok \<lparr>id_tok = 1, value_tok = ''late'', startTimeMs = 5, endTimeMs = 6, score = Fin 0.5\<rparr>"
proof -
  let ?w = "\<lparr>w_text = ''hi'', w_start = 100, w_end = 400, w_confidence = 0.9\<rparr>"
  let ?b = "\<lparr>readFile = \<lambda>p. Inr ''RIFF'', upload = \<lambda>a. Inr (Some ''https://cdn.example/u1''),
      submit = \<lambda>u. Inr (Some ''t1''),
      poll_status = \<lambda>t j. Inr \<lparr>status = ''completed'', text_sd = Some ''hi'', words = Some [?w],
         error = None\<rparr>,
      aborted = \<lambda>j. False\<rparr>"
  let ?hi = "\<lparr>id_tok = 0, value_tok = ''hi'', startTimeMs = 100, endTimeMs = 400, score = Fin 0.9\<rparr>"
  let ?r1 = "\<lparr>reason = 3, text_res = ''hello'', offset = 0, duration = 50000,
      confidence_property = JUndefined, confidence_field = JNum (Fin 0.9)\<rparr>"
  let ?r2 = "\<lparr>reason = 3, text_res = ''late'', offset = 50000, duration = 10000,
      confidence_property = JStr [], confidence_field = JNull\<rparr>"
  let ?evs = "[RecognizedEv (Some ?r1), SessionStopped, RecognizedEv (Some ?r2)]"
  let ?hello = "\<lparr>id_tok = 0, value_tok = ''hello'', startTimeMs = 0, endTimeMs = 5, score = Fin 0.9\<rparr>"
  let ?late = "\<lparr>id_tok = 1, value_tok = ''late'', startTimeMs = 5, endTimeMs = 6, score = Fin 0.5\<rparr>"
  have b: "transcribe_assembly ?b ''/tmp/a.wav'' = Inr [?hi]"
    by (simp add: transcribe_assembly_first_poll words_to_subtitles_def)
  have a: "transcribe_continuous None ?evs = Some (Inr [?hello, ?late])"
    by (simp add: transcribe_continuous_def recognition_promise_def settle_def recognized_def
        RecognizedSpeech_def pick_confidence_def js_or_def tryPromise_def)
  have ok: "result_ok ?r1" "result_ok ?r2"
    by (simp_all add: result_ok_def confidence_ok_def)
  show ?thesis
    using tokens_ok_when_backend_values_are [of ?b "''/tmp/a.wav''" "[?hi]" ?evs None "[?hello, ?late]"]
      a b ok
    by (simp add: word_ok_def RecognizedSpeech_def)
qed

text \<open>
  C4. On a successful single-shot recognition the promise is resolved with \<open>[subtitles]\<close>:
  a list whose only element is the list holding the one token (id 0, score 0.8). The
  token is as described; the value is nested one level deeper than a flat sequence
  of tokens.
\<close>

theorem recognizeOnce_resolves_nested:
  assumes "once_reason result = RecognizedSpeech"
  shows "transcribe_once None (OnceResult result # later) =
     Some (Inr [[\<lparr>id_tok = 0,
                  value_tok = (case once_text result of None \<Rightarrow> [] | Some t \<Rightarrow> t),
                  startTimeMs = once_offset result / 10000,
                  endTimeMs = (once_offset result + once_duration result) / 10000,
                  score = Fin 0.8\<rparr>]])"
  using assms by (simp add: transcribe_once_def once_settle_def tryPromise_def)

theorem recognizeOnce_resolves_nested_witness:
  "transcribe_once None
     [OnceResult \<lparr>once_reason = 3, once_text = Some ''hello'', once_offset = 0, once_duration = 50000\<rparr>]
   = Some (Inr [[\<lparr>id_tok = 0, value_tok = ''hello'', startTimeMs = 0, endTimeMs = 5, score = Fin 0.8\<rparr>]])"
  using recognizeOnce_resolves_nested
    [of "\<lparr>once_reason = 3, once_text = Some ''hello'', once_offset = 0, once_duration = 50000\<rparr>" "[]"]
  by (simp add: RecognizedSpeech_def)




section \<open>Properties of URL validation\<close>

lemma test_Void: "regex_test Void s = False"
  by (induction s) auto

lemma test_Eps: "regex_test Eps s \<longleftrightarrow> s = []"
  by (cases s) (auto simp: test_Void)

lemma test_Alt: "regex_test (Alt a b) s \<longleftrightarrow> regex_test a s \<or> regex_test b s"
  by (induction s arbitrary: a b) auto

lemma test_Seq: "regex_test (Seq a b) s \<longleftrightarrow> (\<exists>u v. s = u @ v \<and> regex_test a u \<and> regex_test b v)"
proof (induction s arbitrary: a b)
  case Nil
  show ?case by simp
next
  case (Cons c s)
  have split: "(\<exists>u v. c # s = u @ v \<and> regex_test a u \<and> regex_test b v) \<longleftrightarrow>
      (nullable a \<and> regex_test (deriv c b) s) \<or>
      (\<exists>u v. s = u @ v \<and> regex_test (deriv c a) u \<and> regex_test b v)"
    (is "?L \<longleftrightarrow> ?R")
  proof
    assume ?L
    then obtain u v where uv: "c # s = u @ v" "regex_test a u" "regex_test b v" by blast
    show ?R
    proof (cases u)
      case Nil
      with uv show ?thesis by auto
    next
      case (Cons d u')
      with uv show ?thesis by auto
    qed
  next
    assume ?R
    then show ?L
    proof
      assume "nullable a \<and> regex_test (deriv c b) s"
      then have "c # s = [] @ (c # s) \<and> regex_test a [] \<and> regex_test b (c # s)" by simp
      then show ?L by blast
    next
      assume "\<exists>u v. s = u @ v \<and> regex_test (deriv c a) u \<and> regex_test b v"
      then obtain u v where "s = u @ v" "regex_test (deriv c a) u" "regex_test b v" by blast
      then have "c # s = (c # u) @ v \<and> regex_test a (c # u) \<and> regex_test b v" by simp
      then show ?L by blast
    qed
  qed
  show ?case
    unfolding split using Cons.IH by (cases "nullable a") (auto simp: test_Alt)
qed

lemma test_Class: "regex_test (Class p) s \<longleftrightarrow> (\<exists>c. s = [c] \<and> p c)"
  by (cases s) (auto simp: test_Eps test_Void)

lemma test_Lit: "regex_test (Lit c) s \<longleftrightarrow> s = [c]"
  by (auto simp: Lit_def test_Class)

lemma test_Str: "regex_test (Str w) s \<longleftrightarrow> s = w"
  by (induction w arbitrary: s) (auto simp: test_Seq test_Lit test_Eps)

lemma test_Opt: "regex_test (Opt r) s \<longleftrightarrow> regex_test r s \<or> s = []"
  by (simp add: Opt_def test_Alt test_Eps)

lemma test_Seq_Eps: "regex_test (Seq Eps r) s \<longleftrightarrow> regex_test r s"
  by (simp add: test_Seq test_Eps)

lemma test_Seq_Void: "regex_test (Seq Void r) s = False"
  by (simp add: test_Seq test_Void)

lemma test_Rep_Class: "regex_test (Rep n (Class p)) s \<longleftrightarrow> length s = n \<and> list_all p s"
proof (induction n arbitrary: s)
  case 0
  show ?case by (auto simp: test_Eps)
next
  case (Suc n)
  show ?case
    by (cases s) (auto simp: Suc.IH test_Seq_Eps test_Seq_Void)
qed

lemma test_Star_Class: "regex_test (Star (Class p)) s \<longleftrightarrow> list_all p s"
  by (induction s) (auto simp: test_Seq_Eps test_Seq_Void)

lemma seqI: "regex_test a u \<Longrightarrow> regex_test b v \<Longrightarrow> regex_test (Seq a b) (u @ v)"
  using test_Seq by blast

lemma seqE:
  assumes "regex_test (Seq a b) s"
  obtains u v where "s = u @ v" "regex_test a u" "regex_test b v"
  using assms test_Seq by blast

lemma grammar_to_regex:
  assumes sc: "a = ''s'' \<or> a = []" and w: "www = [] \<or> www = ''www.''"
    and h: "host = ''youtube.com/watch?v='' \<or> host = ''youtu.be/''"
    and v: "length vid = 11" "list_all id_char vid" and r: "list_all dot rest"
  shows "regex_test youtubeRegex (''http'' @ a @ ''://'' @ www @ host @ vid @ rest)"
  unfolding youtubeRegex_def
proof (intro seqI)
  show "regex_test (Str ''http'') ''http''" by (simp only: test_Str)
  show "regex_test (Opt (Lit CHR ''s'')) a" using sc by (simp only: test_Opt test_Lit)
  show "regex_test (Str ''://'') ''://''" by (simp only: test_Str)
  show "regex_test (Opt (Str ''www.'')) www" using w by (simp only: test_Opt test_Str) blast
  show "regex_test (Alt (Str ''youtube.com/watch?v='') (Str ''youtu.be/'')) host"
    using h by (simp only: test_Alt test_Str)
  show "regex_test (Rep 11 (Class id_char)) vid" using v by (simp only: test_Rep_Class) 
  show "regex_test (Star (Class dot)) rest" using r by (simp only: test_Star_Class)
qed

lemma regex_to_grammar:
  assumes "regex_test youtubeRegex s"
  shows "\<exists>a www host vid rest. s = ''http'' @ a @ ''://'' @ www @ host @ vid @ rest \<and>
      (a = ''s'' \<or> a = []) \<and> (www = [] \<or> www = ''www.'') \<and>
      (host = ''youtube.com/watch?v='' \<or> host = ''youtu.be/'') \<and>
      length vid = 11 \<and> list_all id_char vid \<and> list_all dot rest"
  using assms unfolding youtubeRegex_def
  apply (elim seqE)
  apply (simp only: test_Str test_Opt test_Lit test_Alt test_Rep_Class test_Star_Class)
  apply (rule_tac x=ua in exI, rule_tac x=uc in exI, rule_tac x=ud in exI, rule_tac x=ue in exI, rule_tac x=ve in exI)
  apply (intro conjI)
        apply (rule refl)
       apply assumption
      apply blast
     apply assumption
    apply (erule conjunct1)
   apply (erule conjunct2)
  apply assumption
  done

text \<open>
  The validation of \<open>main.ts\<close> accepts exactly the strings of the grammar, and rejects
  every other string with \<open>InvalidUrlError\<close>.
\<close>

lemma isValidYouTubeUrl_iff_grammar: "isValidYouTubeUrl s \<longleftrightarrow> matches_grammar s"
proof
  assume "isValidYouTubeUrl s"
  then have "regex_test youtubeRegex s" by (simp only: isValidYouTubeUrl_def)
  from regex_to_grammar[OF this] obtain a www host vid rest where
    s: "s = ''http'' @ a @ ''://'' @ www @ host @ vid @ rest"
    and a: "a = ''s'' \<or> a = []" and rest: "www = [] \<or> www = ''www.''"
      "host = ''youtube.com/watch?v='' \<or> host = ''youtu.be/''"
      "length vid = 11" "list_all id_char vid" "list_all dot rest"
    by blast
  have "s = (''http'' @ a) @ ''://'' @ www @ host @ vid @ rest" using s by simp
  moreover have "''http'' @ a = ''http'' \<or> ''http'' @ a = ''https''" using a by auto
  ultimately show "matches_grammar s"
    unfolding matches_grammar_def using rest by blast
next
  assume "matches_grammar s"
  then obtain scheme www host vid rest where
    s: "s = scheme @ ''://'' @ www @ host @ vid @ rest"
    and sc: "scheme = ''http'' \<or> scheme = ''https''" and w: "www = [] \<or> www = ''www.''"
    and h: "host = ''youtube.com/watch?v='' \<or> host = ''youtu.be/''"
    and v: "length vid = 11" "list_all id_char vid" and r: "list_all dot rest"
    unfolding matches_grammar_def by blast
  from sc obtain a where a: "scheme = ''http'' @ a" "a = ''s'' \<or> a = []" by auto
  have "s = ''http'' @ a @ ''://'' @ www @ host @ vid @ rest" using s a by simp
  with grammar_to_regex[OF a(2) w h v r] show "isValidYouTubeUrl s"
    by (simp only: isValidYouTubeUrl_def)
qed

lemma validateUrl_iff_grammar:
  "(validateUrl s = Inr s \<longleftrightarrow> matches_grammar s) \<and>
   (validateUrl s = Inl (InvalidUrlError s) \<longleftrightarrow> \<not> matches_grammar s)"
  by (simp add: validateUrl_def isValidYouTubeUrl_iff_grammar)

lemmas url_eval =
  youtubeRegex_def youtubeRegex_assembly_def Opt_def Lit_def Plus_def id_char_def in_range_def
  dot_def line_terminator_def non_space_def path_char_def is_white_def eval_nat_numeral

lemma documented_url_main:
  "isValidYouTubeUrl ''http://youtube.com/watch?v=dQw4w9WgXcQ&t=30s''"
  by (simp add: isValidYouTubeUrl_def url_eval)

lemma documented_url_assembly:
  "\<not> isValidYouTubeUrl_assembly ''http://youtube.com/watch?v=dQw4w9WgXcQ&t=30s''"
  by (simp add: isValidYouTubeUrl_assembly_def url_eval)

lemma schemeless_url_main: "\<not> isValidYouTubeUrl ''youtu.be/dQw4w9WgXcQ''"
  by (simp add: isValidYouTubeUrl_def url_eval)

lemma schemeless_url_assembly: "isValidYouTubeUrl_assembly ''youtu.be/dQw4w9WgXcQ''"
  by (simp add: isValidYouTubeUrl_assembly_def url_eval)

text \<open>
  C1. Validation succeeds exactly on the strings of the grammar. This holds for the
  pattern of \<open>main.ts\<close> (\<open>validateUrl_iff_grammar\<close>). The pattern of the AssemblyAI variant
  differs: it rejects \<open>http://youtube.com/watch?v=dQw4w9WgXcQ&t=30s\<close>, a string of the
  grammar that \<open>model.ts\<close> documents as a valid URL, and it accepts
  \<open>youtu.be/dQw4w9WgXcQ\<close>, which has no scheme and is no string of the grammar.
\<close>

theorem validateUrl_assembly_differs_from_grammar:
  "matches_grammar ''http://youtube.com/watch?v=dQw4w9WgXcQ&t=30s'' \<and>
   validateUrl ''http://youtube.com/watch?v=dQw4w9WgXcQ&t=30s''
     = Inr ''http://youtube.com/watch?v=dQw4w9WgXcQ&t=30s'' \<and>
   validateUrl_assembly ''http://youtube.com/watch?v=dQw4w9WgXcQ&t=30s''
     = Inl (InvalidUrlError ''http://youtube.com/watch?v=dQw4w9WgXcQ&t=30s'') \<and>
   \<not> matches_grammar ''youtu.be/dQw4w9WgXcQ'' \<and>
   validateUrl ''youtu.be/dQw4w9WgXcQ'' = Inl (InvalidUrlError ''youtu.be/dQw4w9WgXcQ'') \<and>
   validateUrl_assembly ''youtu.be/dQw4w9WgXcQ'' = Inr ''youtu.be/dQw4w9WgXcQ''"
  using documented_url_main documented_url_assembly schemeless_url_main schemeless_url_assembly
  by (simp only: validateUrl_def validateUrl_assembly_def isValidYouTubeUrl_iff_grammar [symmetric]
      if_True if_False simp_thms)

theorem validateUrl_assembly_differs_from_grammar_witness:
  "validateUrl_assembly ''http://youtube.com/watch?v=dQw4w9WgXcQ&t=30s''
     \<noteq> validateUrl ''http://youtube.com/watch?v=dQw4w9WgXcQ&t=30s''"
  using validateUrl_assembly_differs_from_grammar by simp


end
